theory Spec2Isabelle
  imports Main
begin

section \<open>SimpleShell: data model\<close>

text \<open>
  The shell of \<^verbatim>\<open>LinuxShell_Assignment2.cpp\<close> keeps its job table in the globals
  \<^verbatim>\<open>jobs\<close>, \<^verbatim>\<open>next_job_id\<close> and \<^verbatim>\<open>shell_pgid\<close>. Everything it does to the operating
  system is a system call or a print; the model records each of them, in program order,
  in a trace, and takes every answer of the operating system from an oracle record.
\<close>

text \<open>\<^verbatim>\<open>struct Job\<close>; \<^verbatim>\<open>status\<close> is the source's int: 0 running, 1 stopped, 2 done.\<close>

record Job =
  job_id :: int
  pgid :: int
  cmdline :: string
  is_background :: bool
  status :: int

abbreviation (input) Running :: int where "Running \<equiv> 0"
abbreviation (input) Stopped :: int where "Stopped \<equiv> 1"
abbreviation (input) Done :: int where "Done \<equiv> 2"

text \<open>\<^verbatim>\<open>struct Command\<close>; a default-constructed one has empty fields and \<^verbatim>\<open>append = false\<close>.\<close>

record Command =
  argv :: "string list"
  infile :: string
  outfile :: string
  append_flag :: bool

definition Command0 :: Command where
  "Command0 = \<lparr>argv = [], infile = [], outfile = [], append_flag = False\<rparr>"

text \<open>
  What \<^verbatim>\<open>waitpid\<close> stores in \<^verbatim>\<open>status\<close>, as the macros \<^verbatim>\<open>WIFEXITED\<close>, \<^verbatim>\<open>WIFSIGNALED\<close>,
  \<^verbatim>\<open>WIFSTOPPED\<close> and \<^verbatim>\<open>WIFCONTINUED\<close> classify it; \<open>WOther\<close> is an int none of them
  accepts (a \<^verbatim>\<open>status\<close> that was never written may be one).
\<close>

datatype wstatus = WExited | WSignaled | WStopped | WContinued | WOther

definition WIFEXITED :: "wstatus \<Rightarrow> bool" where "WIFEXITED s \<longleftrightarrow> s = WExited"
definition WIFSIGNALED :: "wstatus \<Rightarrow> bool" where "WIFSIGNALED s \<longleftrightarrow> s = WSignaled"
definition WIFSTOPPED :: "wstatus \<Rightarrow> bool" where "WIFSTOPPED s \<longleftrightarrow> s = WStopped"
definition WIFCONTINUED :: "wstatus \<Rightarrow> bool" where "WIFCONTINUED s \<longleftrightarrow> s = WContinued"

datatype oflag = O_RDONLY | O_WRONLY | O_CREAT | O_APPEND | O_TRUNC
datatype wflag = WNOHANG | WUNTRACED | WCONTINUED
datatype signal = SIGCONT | SIGINT | SIGTSTP | SIGCHLD

text \<open>A piece written to a stream with \<^verbatim>\<open><<\<close>: a string literal or variable, or a number.\<close>

datatype piece = S string | I int

text \<open>The system calls and prints of the source, with their arguments.\<close>

datatype event =
    Stdout "piece list"
  | Stderr "piece list"
  | Perror string
  | Prompt
  | Chdir "string option"
  | Kill int signal
  | TcSetPgrp int
  | WaitPid int "wflag set"
  | Getpgid int
  | PipeCall
  | Fork
  | SetPgid int int
  | SignalDfl signal
  | Dup2 int int
  | Open string "oflag set"
  | Close int
  | Execvp "string list"

text \<open>
  The globals of the process, its \<^verbatim>\<open>errno\<close>, and the trace of what it has done.
  \<^verbatim>\<open>errno\<close> is followed through \<^verbatim>\<open>sigchld_handler\<close> only, the one function of the source
  that names it.
\<close>

record world =
  jobs :: "Job list"
  next_job_id :: int
  shell_pgid :: int
  errno :: int
  trace :: "event list"

definition emit :: "event list \<Rightarrow> world \<Rightarrow> world" where
  "emit evs w = w\<lparr>trace := trace w @ evs\<rparr>"

text \<open>
  The answers of the operating system. A list holds the answers to successive calls; a
  call made after the list is used up fails (\<^verbatim>\<open>pipe\<close> and \<^verbatim>\<open>fork\<close> return -1, \<^verbatim>\<open>waitpid\<close>
  returns -1 as it does when no child is left). \<open>garbage\<close> is what the \<^verbatim>\<open>WIF\<close> macros
  see in a local \<^verbatim>\<open>int status\<close> that no \<^verbatim>\<open>waitpid\<close> has written.
\<close>

record os =
  env_home :: "string option"
  chdir_ret :: int
  kill_ret :: int
  pipe_rets :: "(int \<times> int) option list"
  fork_rets :: "int list"
  wait_rets :: "(int \<times> wstatus) list"
  open_ret :: "string \<Rightarrow> oflag set \<Rightarrow> int"
  execvp_returns :: bool
  getpid_ret :: int
  garbage :: wstatus

text \<open>
  How a call ends for the process that made it: it returns a value, the process exits
  with a status (\<^verbatim>\<open>exit\<close>), it is aborted by an exception nobody catches
  (\<^verbatim>\<open>std::terminate\<close>), or its image is replaced by another program (\<^verbatim>\<open>execvp\<close>).
\<close>

datatype 'r outcome = Return 'r | Exit int | Abort | Exec "string list"

section \<open>Tokenizer and parser\<close>

definition isspace :: "char \<Rightarrow> bool" where
  "isspace c \<longleftrightarrow> c \<in> {CHR '' '', CHR 0x09, CHR 0x0A, CHR 0x0B, CHR 0x0C, CHR 0x0D}"

definition trim_ws :: "char \<Rightarrow> bool" where
  "trim_ws c \<longleftrightarrow> c \<in> {CHR '' '', CHR 0x09, CHR 0x0A, CHR 0x0D}"

text \<open>\<^verbatim>\<open>trim\<close>: the substring from the first to the last character outside \<^verbatim>\<open>" \t\n\r"\<close>.\<close>

definition trim :: "string \<Rightarrow> string" where
  "trim s = rev (dropWhile trim_ws (rev (dropWhile trim_ws s)))"

definition special :: "char \<Rightarrow> bool" where
  "special c \<longleftrightarrow> c \<in> {CHR ''|'', CHR ''<'', CHR ''>'', CHR ''&''}"

definition quote :: "char \<Rightarrow> bool" where
  "quote c \<longleftrightarrow> c = CHR 0x22 \<or> c = CHR 0x27"

definition normal :: "char \<Rightarrow> bool" where
  "normal c \<longleftrightarrow> \<not> isspace c \<and> \<not> special c"

text \<open>
  The loop of \<^verbatim>\<open>split_tokens\<close>, on the characters from index \<^verbatim>\<open>i\<close> on, with the
  source's \<^verbatim>\<open>cur\<close> and \<^verbatim>\<open>toks\<close>.
\<close>

function split_loop :: "string \<Rightarrow> string \<Rightarrow> string list \<Rightarrow> string list" where
  "split_loop [] cur toks = toks"
| "split_loop (c # rest) cur toks =
     (if isspace c then split_loop rest cur toks
      else if special c then
        (let toks1 = (if cur \<noteq> [] then toks @ [cur] else toks) in
         if c = CHR ''>'' then
           (case rest of
              [] \<Rightarrow> split_loop rest [] (toks1 @ [''>''])
            | d # rest' \<Rightarrow>
                if d = CHR ''>'' then split_loop rest' [] (toks1 @ [''>>''])
                else split_loop rest [] (toks1 @ [''>'']))
         else split_loop rest [] (toks1 @ [[c]]))
      else if quote c then
        split_loop (case dropWhile (\<lambda>x. x \<noteq> c) rest of [] \<Rightarrow> [] | _ # after \<Rightarrow> after) []
          (toks @ [cur @ takeWhile (\<lambda>x. x \<noteq> c) rest])
      else
        split_loop (dropWhile normal rest) []
          (if cur @ c # takeWhile normal rest \<noteq> []
           then toks @ [cur @ c # takeWhile normal rest] else toks))"
  by pat_completeness auto

termination
proof -
  have after_quote: "length (case dropWhile (\<lambda>x. x \<noteq> c) rest of [] \<Rightarrow> [] | _ # after \<Rightarrow> after)
      \<le> length rest" for c :: char and rest :: string
  proof (cases "dropWhile (\<lambda>x. x \<noteq> c) rest")
    case Nil
    then show ?thesis by (simp only: list.case list.size)
  next
    case (Cons d after)
    with length_dropWhile_le [of "\<lambda>x. x \<noteq> c" rest] show ?thesis
      by (simp only: list.case) simp
  qed
  show ?thesis
    by (relation "measure (\<lambda>(l, cur, toks). length l)")
       (auto simp: less_Suc_eq_le length_dropWhile_le after_quote)
qed

definition split_tokens :: "string \<Rightarrow> string list" where
  "split_tokens line = split_loop line [] []"

text \<open>
  The loop of \<^verbatim>\<open>parse_pipeline\<close> on the tokens from index \<^verbatim>\<open>i\<close> on, with the source's
  \<^verbatim>\<open>cur\<close>, \<^verbatim>\<open>pipeline\<close> and \<^verbatim>\<open>background\<close>; the first equation is the test after the loop.
\<close>

fun parse_loop :: "string list \<Rightarrow> Command \<Rightarrow> Command list \<Rightarrow> bool \<Rightarrow> Command list \<times> bool" where
  "parse_loop [] cur pipeline background =
     (if argv cur \<noteq> [] \<or> infile cur \<noteq> [] \<or> outfile cur \<noteq> []
      then (pipeline @ [cur], background) else (pipeline, background))"
| "parse_loop (tk # rest) cur pipeline background =
     (if tk = ''|'' then
        parse_loop rest Command0 (if argv cur \<noteq> [] then pipeline @ [cur] else pipeline) background
      else if tk = ''<'' then
        (case rest of
           [] \<Rightarrow> parse_loop [] cur pipeline background
         | f # rest' \<Rightarrow> parse_loop rest' (cur\<lparr>infile := f\<rparr>) pipeline background)
      else if tk = ''>'' \<or> tk = ''>>'' then
        (case rest of
           [] \<Rightarrow> parse_loop [] (if tk = ''>>'' then cur\<lparr>append_flag := True\<rparr> else cur)
                   pipeline background
         | f # rest' \<Rightarrow>
             parse_loop rest' ((if tk = ''>>'' then cur\<lparr>append_flag := True\<rparr> else cur)\<lparr>outfile := f\<rparr>)
               pipeline background)
      else if tk = ''&'' then parse_loop rest cur pipeline True
      else parse_loop rest (cur\<lparr>argv := argv cur @ [tk]\<rparr>) pipeline background)"

definition parse_pipeline :: "string list \<Rightarrow> Command list \<times> bool" where
  "parse_pipeline toks = parse_loop toks Command0 [] False"

section \<open>Job management\<close>

text \<open>\<^verbatim>\<open>add_job\<close> returns the new job's id; it looks at no job already in the table.\<close>

definition add_job :: "int \<Rightarrow> string \<Rightarrow> bool \<Rightarrow> world \<Rightarrow> int \<times> world" where
  "add_job pg cmd bg w =
     (next_job_id w,
      w\<lparr>jobs := jobs w @ [\<lparr>job_id = next_job_id w, pgid = pg, cmdline = cmd,
                            is_background = bg, status = Running\<rparr>],
        next_job_id := next_job_id w + 1\<rparr>)"

definition mark_job_as_done :: "int \<Rightarrow> Job list \<Rightarrow> Job list" where
  "mark_job_as_done pg js = map (\<lambda>j. if pgid j = pg then j\<lparr>status := Done\<rparr> else j) js"

definition mark_job_as_stopped :: "int \<Rightarrow> Job list \<Rightarrow> Job list" where
  "mark_job_as_stopped pg js = map (\<lambda>j. if pgid j = pg then j\<lparr>status := Stopped\<rparr> else j) js"

definition remove_completed_jobs :: "Job list \<Rightarrow> Job list" where
  "remove_completed_jobs js = filter (\<lambda>j. status j \<noteq> Done) js"

text \<open>
  The three finders return a pointer into the vector or \<^verbatim>\<open>nullptr\<close>: here the index of
  the job or \<open>None\<close>. The first match wins, as in the source's loops.
\<close>

fun find_first :: "(Job \<Rightarrow> bool) \<Rightarrow> Job list \<Rightarrow> nat option" where
  "find_first P [] = None"
| "find_first P (j # js) =
     (if P j then Some 0 else (case find_first P js of None \<Rightarrow> None | Some k \<Rightarrow> Some (Suc k)))"

definition find_job_by_id :: "int \<Rightarrow> Job list \<Rightarrow> nat option" where
  "find_job_by_id i js = find_first (\<lambda>j. job_id j = i) js"

definition find_job_by_pgid :: "int \<Rightarrow> Job list \<Rightarrow> nat option" where
  "find_job_by_pgid pg js = find_first (\<lambda>j. pgid j = pg) js"

definition find_last_job :: "Job list \<Rightarrow> nat option" where
  "find_last_job js = (if js = [] then None else Some (length js - 1))"

section \<open>Built-in commands\<close>

definition is_builtin :: "string list \<Rightarrow> bool" where
  "is_builtin av =
     (case av of [] \<Rightarrow> False
      | cmd # _ \<Rightarrow> cmd = ''cd'' \<or> cmd = ''exit'' \<or> cmd = ''jobs'' \<or> cmd = ''fg'' \<or> cmd = ''bg'')"

text \<open>
  \<^verbatim>\<open>std::stoi\<close> of the C++ library, base 10: it skips leading white space, takes an
  optional sign and the longest run of digits, and ignores what follows; it throws
  \<^verbatim>\<open>std::invalid_argument\<close> when there is no digit and \<^verbatim>\<open>std::out_of_range\<close> when the
  value is not an \<^verbatim>\<open>int\<close>.
\<close>

datatype exn = Invalid_argument | Out_of_range

definition isdigit :: "char \<Rightarrow> bool" where
  "isdigit c \<longleftrightarrow> c \<in> set ''0123456789''"

definition digit_val :: "char \<Rightarrow> int" where
  "digit_val c = int (of_char c) - 48"

definition digits_val :: "string \<Rightarrow> int" where
  "digits_val ds = foldl (\<lambda>a c. 10 * a + digit_val c) 0 ds"

definition stoi :: "string \<Rightarrow> exn + int" where
  "stoi s =
     (let s1 = dropWhile isspace s;
          neg = (case s1 of [] \<Rightarrow> False | c # _ \<Rightarrow> c = CHR ''-'');
          s2 = (case s1 of [] \<Rightarrow> [] | c # r \<Rightarrow> if c = CHR ''-'' \<or> c = CHR ''+'' then r else s1);
          ds = takeWhile isdigit s2;
          v = (if neg then - digits_val ds else digits_val ds)
      in if ds = [] then Inl Invalid_argument
         else if v < - 2147483648 \<or> 2147483647 < v then Inl Out_of_range
         else Inr v)"

text \<open>
  The job argument of \<^verbatim>\<open>fg\<close> and \<^verbatim>\<open>bg\<close>: \<^verbatim>\<open>id\<close> starts as -1 and is overwritten by
  \<^verbatim>\<open>stoi\<close> of the second word, a leading \<^verbatim>\<open>%\<close> removed, when there is one.
\<close>

definition job_arg :: "string list \<Rightarrow> exn + int" where
  "job_arg av =
     (case av of
        _ # s # _ \<Rightarrow> stoi (case s of [] \<Rightarrow> s | c # r \<Rightarrow> if c = CHR ''%'' then r else s)
      | _ \<Rightarrow> Inr (- 1))"

text \<open>\<^verbatim>\<open>Job *j = (id==-1? find_last_job() : find_job_by_id(id))\<close>\<close>

definition resolve_job :: "int \<Rightarrow> Job list \<Rightarrow> nat option" where
  "resolve_job i js = (if i = - 1 then find_last_job js else find_job_by_id i js)"

text \<open>The line the \<^verbatim>\<open>jobs\<close> built-in prints for one job.\<close>

definition jobs_line :: "Job \<Rightarrow> event" where
  "jobs_line j =
     Stdout [S ''['', I (job_id j), S ''] '',
             S (if status j = 0 then ''Running'' else if status j = 1 then ''Stopped'' else ''Done''),
             S [CHR 0x09], S (cmdline j), S '' (pgid='', I (pgid j), S '')'', S [CHR 0x0A]]"

text \<open>
  The value the \<^verbatim>\<open>WIF\<close> macros read after one \<^verbatim>\<open>waitpid\<close> into a fresh \<^verbatim>\<open>int status\<close>:
  the status stored when a child was reported, the unwritten variable otherwise.
\<close>

definition first_wait :: "os \<Rightarrow> wstatus" where
  "first_wait o_s =
     (case wait_rets o_s of [] \<Rightarrow> garbage o_s
      | (r, s) # _ \<Rightarrow> if r > 0 then s else garbage o_s)"

definition fg_job :: "os \<Rightarrow> nat \<Rightarrow> world \<Rightarrow> world" where
  "fg_job o_s k w =
     (let j = (jobs w ! k)\<lparr>is_background := False\<rparr>;
          w1 = emit ([Kill (- pgid j) SIGCONT]
                     @ (if kill_ret o_s < 0 then [Perror ''kill(SIGCONT)''] else [])
                     @ [TcSetPgrp (pgid j), WaitPid (- pgid j) {WUNTRACED},
                        TcSetPgrp (shell_pgid w)]) w;
          j' = j\<lparr>status := (if WIFSTOPPED (first_wait o_s) then Stopped else Done)\<rparr>
      in w1\<lparr>jobs := remove_completed_jobs ((jobs w)[k := j'])\<rparr>)"

definition bg_job :: "os \<Rightarrow> nat \<Rightarrow> world \<Rightarrow> world" where
  "bg_job o_s k w =
     (let j = (jobs w ! k)\<lparr>is_background := True, status := Running\<rparr>
      in emit ([Kill (- pgid j) SIGCONT]
               @ (if kill_ret o_s < 0 then [Perror ''kill(SIGCONT)''] else [])
               @ [Stdout [S ''['', I (job_id j), S ''] '', S (cmdline j), S ('' &'' @ [CHR 0x0A])]])
           (w\<lparr>jobs := (jobs w)[k := j]\<rparr>))"

definition run_builtin :: "os \<Rightarrow> string list \<Rightarrow> world \<Rightarrow> int outcome \<times> world" where
  "run_builtin o_s av w =
     (case av of
        [] \<Rightarrow> (Return 0, w)
      | cmd # args \<Rightarrow>
          if cmd = ''cd'' then
            (Return 0,
             emit ([Chdir (case args of [] \<Rightarrow> env_home o_s | a # _ \<Rightarrow> Some a)]
                   @ (if chdir_ret o_s \<noteq> 0 then [Perror ''cd''] else [])) w)
          else if cmd = ''exit'' then (Exit 0, w)
          else if cmd = ''jobs'' then
            (Return 0, (emit (map jobs_line (jobs w)) w)\<lparr>jobs := remove_completed_jobs (jobs w)\<rparr>)
          else if cmd = ''fg'' then
            (case job_arg av of
               Inl e \<Rightarrow> (Abort, w)
             | Inr i \<Rightarrow>
                 (case resolve_job i (jobs w) of
                    None \<Rightarrow> (Return (- 1), emit [Stderr [S ''fg: no such job\<newline>'']] w)
                  | Some k \<Rightarrow> (Return 0, fg_job o_s k w)))
          else if cmd = ''bg'' then
            (case job_arg av of
               Inl e \<Rightarrow> (Abort, w)
             | Inr i \<Rightarrow>
                 (case resolve_job i (jobs w) of
                    None \<Rightarrow> (Return (- 1), emit [Stderr [S ''bg: no such job\<newline>'']] w)
                  | Some k \<Rightarrow> (Return 0, bg_job o_s k w)))
          else (Return 0, w))"

section \<open>Execution\<close>

text \<open>
  The first loop of \<^verbatim>\<open>launch_pipeline\<close>: \<open>k\<close> calls of \<^verbatim>\<open>pipe\<close>, giving the descriptors
  of \<^verbatim>\<open>pipefds\<close>, or \<open>None\<close> after \<^verbatim>\<open>perror("pipe"); return\<close>.
\<close>

fun make_pipes :: "nat \<Rightarrow> (int \<times> int) option list \<Rightarrow> event list \<times> int list option" where
  "make_pipes 0 rs = ([], Some [])"
| "make_pipes (Suc k) [] = ([PipeCall, Perror ''pipe''], None)"
| "make_pipes (Suc k) (None # rs) = ([PipeCall, Perror ''pipe''], None)"
| "make_pipes (Suc k) (Some (rd, wr) # rs) =
     (case make_pipes k rs of
        (evs, None) \<Rightarrow> (PipeCall # evs, None)
      | (evs, Some fds) \<Rightarrow> (PipeCall # evs, Some (rd # wr # fds)))"

text \<open>
  The two redirection blocks of the child (\<^verbatim>\<open>i==0\<close> with an \<^verbatim>\<open>infile\<close>, \<^verbatim>\<open>i==n-1\<close> with an
  \<^verbatim>\<open>outfile\<close>); \<open>Exit 1\<close> is the \<^verbatim>\<open>exit(1)\<close> after a failed \<^verbatim>\<open>open\<close>.
\<close>

definition out_flags :: "Command \<Rightarrow> oflag set" where
  "out_flags c = {O_WRONLY, O_CREAT, if append_flag c then O_APPEND else O_TRUNC}"

definition input_redirected :: "Command list \<Rightarrow> nat \<Rightarrow> bool" where
  "input_redirected pl i \<longleftrightarrow> i = 0 \<and> infile (pl ! i) \<noteq> []"

definition output_redirected :: "Command list \<Rightarrow> nat \<Rightarrow> bool" where
  "output_redirected pl i \<longleftrightarrow> i = length pl - 1 \<and> outfile (pl ! i) \<noteq> []"

definition child_redirect :: "os \<Rightarrow> Command list \<Rightarrow> nat \<Rightarrow> world \<Rightarrow> unit outcome \<times> world" where
  "child_redirect o_s pl i w =
     (let c = pl ! i;
          in_fd = open_ret o_s (infile c) {O_RDONLY};
          out_fd = open_ret o_s (outfile c) (out_flags c);
          w1 = (if input_redirected pl i
                then emit ([Open (infile c) {O_RDONLY}]
                           @ (if in_fd < 0 then [Perror ''open infile''] else [Dup2 in_fd 0])) w
                else w)
      in if input_redirected pl i \<and> in_fd < 0 then (Exit 1, w1)
         else if output_redirected pl i then
           (if out_fd < 0 then Exit 1 else Return (),
            emit ([Open (outfile c) (out_flags c)]
                  @ (if out_fd < 0 then [Perror ''open outfile''] else [Dup2 out_fd 1])) w1)
         else (Return (), w1))"

text \<open>The end of the child, from the comment \<^verbatim>\<open>// exec\<close> on.\<close>

definition child_exec :: "os \<Rightarrow> Command \<Rightarrow> world \<Rightarrow> unit outcome \<times> world" where
  "child_exec o_s c w =
     (if argv c = [] then (Exit 0, w)
      else if is_builtin (argv c) then
        (case run_builtin o_s (argv c) w of
           (Return r, w') \<Rightarrow> (Exit 0, w')
         | (Exit st, w') \<Rightarrow> (Exit st, w')
         | (Abort, w') \<Rightarrow> (Abort, w')
         | (Exec a, w') \<Rightarrow> (Exec a, w'))
      else if execvp_returns o_s then (Exit 1, emit [Execvp (argv c), Perror ''execvp''] w)
      else (Exec (argv c), emit [Execvp (argv c)] w))"

definition close_all :: "int list \<Rightarrow> event list" where
  "close_all pipefds = map Close (filter (\<lambda>fd. fd \<noteq> - 1) pipefds)"

text \<open>
  The branch \<^verbatim>\<open>pid==0\<close> of the fork loop: stage \<open>i\<close> in the new process, \<open>pgid0\<close> being
  the value of \<^verbatim>\<open>pgid\<close> at the fork. \<open>pipefds\<close> has \<open>2 * (length pl - 1)\<close> entries there.
  \<open>child_setup\<close> is what the child does down to the two \<^verbatim>\<open>dup2\<close> on the pipe ends.
\<close>

definition child_setup :: "os \<Rightarrow> Command list \<Rightarrow> nat \<Rightarrow> bool \<Rightarrow> int \<Rightarrow> int list \<Rightarrow> event list" where
  "child_setup o_s pl i background pgid0 pipefds =
     (let in_fd = (if i > 0 then pipefds ! ((i - 1) * 2) else - 1);
          out_fd = (if i + 1 < length pl then pipefds ! (i * 2 + 1) else - 1);
          pg = (if pgid0 = 0 then getpid_ret o_s else pgid0)
      in [SetPgid 0 pg] @ (if \<not> background then [TcSetPgrp pg] else [])
         @ [SignalDfl SIGINT, SignalDfl SIGTSTP, SignalDfl SIGCHLD]
         @ (if in_fd \<noteq> - 1 then [Dup2 in_fd 0] else [])
         @ (if out_fd \<noteq> - 1 then [Dup2 out_fd 1] else []))"

definition child_stage ::
  "os \<Rightarrow> Command list \<Rightarrow> nat \<Rightarrow> bool \<Rightarrow> int \<Rightarrow> int list \<Rightarrow> world \<Rightarrow> unit outcome \<times> world" where
  "child_stage o_s pl i background pgid0 pipefds w =
     (case child_redirect o_s pl i (emit (child_setup o_s pl i background pgid0 pipefds) w) of
        (Return u, w2) \<Rightarrow> child_exec o_s (pl ! i) (emit (close_all pipefds) w2)
      | (Exit st, w2) \<Rightarrow> (Exit st, w2)
      | (Abort, w2) \<Rightarrow> (Abort, w2)
      | (Exec a, w2) \<Rightarrow> (Exec a, w2))"

text \<open>
  The fork loop over the stage indices still to do. \<^verbatim>\<open>fork\<close> answers a negative number
  (failure), 0 (this process is the new child) or the child's pid (this process is the
  shell).
\<close>

datatype fork_end = Forked int | ForkFailed | InChild "unit outcome"

fun fork_loop ::
  "os \<Rightarrow> Command list \<Rightarrow> bool \<Rightarrow> int list \<Rightarrow> nat list \<Rightarrow> int list \<Rightarrow> int \<Rightarrow> world
     \<Rightarrow> fork_end \<times> world" where
  "fork_loop o_s pl background pipefds [] frs pg w = (Forked pg, w)"
| "fork_loop o_s pl background pipefds (i # todo) frs pg w =
     (let pid = (case frs of [] \<Rightarrow> - 1 | p # _ \<Rightarrow> p);
          w1 = emit [Fork] w
      in if pid < 0 then (ForkFailed, emit [Perror ''fork''] w1)
         else if pid = 0 then
           (case child_stage o_s pl i background pg pipefds w1 of (out, w2) \<Rightarrow> (InChild out, w2))
         else
           (let pg' = (if pg = 0 then pid else pg)
            in fork_loop o_s pl background pipefds todo (tl frs) pg' (emit [SetPgid pid pg'] w1)))"

text \<open>
  The \<^verbatim>\<open>do ... while\<close> around \<^verbatim>\<open>waitpid(-pgid, &status, WUNTRACED)\<close>: the value of
  \<^verbatim>\<open>status\<close> when the loop ends and the number of calls made, \<open>k\<close> calls having been made
  before.
\<close>

fun wait_loop :: "(int \<times> wstatus) list \<Rightarrow> wstatus \<Rightarrow> nat \<Rightarrow> wstatus \<times> nat" where
  "wait_loop [] st k = (st, Suc k)"
| "wait_loop ((r, s) # rest) st k =
     (let st' = (if r > 0 then s else st)
      in if r > 0 \<and> \<not> WIFSTOPPED st' \<and> \<not> WIFEXITED st' \<and> \<not> WIFSIGNALED st'
         then wait_loop rest st' (Suc k) else (st', Suc k))"

text \<open>Lines 289 to 299: the terminal goes to the job, the shell waits, the terminal comes back.\<close>

definition foreground_wait :: "os \<Rightarrow> int \<Rightarrow> world \<Rightarrow> wstatus \<times> world" where
  "foreground_wait o_s pg w =
     (case wait_loop (wait_rets o_s) (garbage o_s) 0 of
        (st, k) \<Rightarrow>
          (st, emit ([TcSetPgrp pg] @ replicate k (WaitPid (- pg) {WUNTRACED})
                     @ [TcSetPgrp (shell_pgid w)]) w))"

text \<open>Lines 300 to 306: what the shell does with the status once the terminal is back.\<close>

definition post_wait :: "wstatus \<Rightarrow> int \<Rightarrow> int \<Rightarrow> string \<Rightarrow> world \<Rightarrow> world" where
  "post_wait st pg jid cmd w =
     (if WIFSTOPPED st then
        emit [Stderr [S (CHR 0x0A # ''[''), I jid, S (''] Stopped'' @ [CHR 0x09]), S cmd,
                      S [CHR 0x0A]]]
          (w\<lparr>jobs := mark_job_as_stopped pg (jobs w)\<rparr>)
      else w\<lparr>jobs := remove_completed_jobs (mark_job_as_done pg (jobs w))\<rparr>)"

definition launch_pipeline ::
  "os \<Rightarrow> Command list \<Rightarrow> bool \<Rightarrow> string \<Rightarrow> world \<Rightarrow> unit outcome \<times> world" where
  "launch_pipeline o_s pl background cmd w =
     (case make_pipes (length pl - 1) (pipe_rets o_s) of
        (evs, None) \<Rightarrow> (Return (), emit evs w)
      | (evs, Some pipefds) \<Rightarrow>
          (case fork_loop o_s pl background pipefds [0..<length pl] (fork_rets o_s) 0 (emit evs w) of
             (ForkFailed, w1) \<Rightarrow> (Return (), w1)
           | (InChild out, w1) \<Rightarrow> (out, w1)
           | (Forked pg, w1) \<Rightarrow>
               (case add_job pg cmd background (emit (close_all pipefds) w1) of
                  (jid, w2) \<Rightarrow>
                    if \<not> background then
                      (case foreground_wait o_s pg w2 of
                         (st, w3) \<Rightarrow> (Return (), post_wait st pg jid cmd w3))
                    else (Return (), emit [Stdout [S ''['', I jid, S ''] '', I pg, S [CHR 0x0A]]] w2))))"

section \<open>Signal handler\<close>

text \<open>
  One answer of \<^verbatim>\<open>waitpid(-1, &status, WNOHANG | WUNTRACED | WCONTINUED)\<close> inside the
  handler, with the answer of the \<^verbatim>\<open>getpgid\<close> that follows it and the value the two calls
  leave in \<^verbatim>\<open>errno\<close>.
\<close>

record child_change =
  reaped :: int
  wstat :: wstatus
  pgid_ret :: int
  errno_after :: int

definition ECHILD :: int where "ECHILD = 10"

definition reap_flags :: "wflag set" where
  "reap_flags = {WNOHANG, WUNTRACED, WCONTINUED}"

text \<open>
  What one reaped state change does to the job table (the body under
  \<^verbatim>\<open>// find job by pgid\<close>): nothing when \<^verbatim>\<open>getpgid\<close> failed.
\<close>

definition reconcile :: "child_change \<Rightarrow> Job list \<Rightarrow> Job list" where
  "reconcile c js =
     (if pgid_ret c > 0 then
        (if WIFEXITED (wstat c) \<or> WIFSIGNALED (wstat c) then mark_job_as_done (pgid_ret c) js
         else if WIFSTOPPED (wstat c) then mark_job_as_stopped (pgid_ret c) js
         else if WIFCONTINUED (wstat c) then
           (case find_job_by_pgid (pgid_ret c) js of
              None \<Rightarrow> js
            | Some k \<Rightarrow> js[k := (js ! k)\<lparr>status := Running\<rparr>])
         else js)
      else js)"

text \<open>
  The \<^verbatim>\<open>while (true)\<close> of \<^verbatim>\<open>sigchld_handler\<close> on the state changes still pending; with
  none left \<^verbatim>\<open>waitpid\<close> answers -1 and \<^verbatim>\<open>errno\<close> is \<^verbatim>\<open>ECHILD\<close>.
\<close>

fun reap_loop :: "child_change list \<Rightarrow> world \<Rightarrow> world" where
  "reap_loop [] w = emit [WaitPid (- 1) reap_flags] (w\<lparr>errno := ECHILD\<rparr>)"
| "reap_loop (c # cs) w =
     (let w1 = emit [WaitPid (- 1) reap_flags] (w\<lparr>errno := errno_after c\<rparr>)
      in if reaped c \<le> 0 then w1
         else
           (let w2 = emit [Getpgid (reaped c)] w1
            in reap_loop cs (w2\<lparr>jobs := reconcile c (jobs w2)\<rparr>)))"

definition sigchld_handler :: "child_change list \<Rightarrow> world \<Rightarrow> world" where
  "sigchld_handler pending w =
     (let saved_errno = errno w in (reap_loop pending w)\<lparr>errno := saved_errno\<rparr>)"

section \<open>The prompt loop\<close>

text \<open>
  One turn of the \<^verbatim>\<open>while (true)\<close> of \<^verbatim>\<open>main\<close>; \<open>None\<close> is a failed \<^verbatim>\<open>getline\<close> (end of
  input). \<open>Return ()\<close> means that the loop goes on.
\<close>

definition shell_step :: "os \<Rightarrow> string option \<Rightarrow> world \<Rightarrow> unit outcome \<times> world" where
  "shell_step o_s input w =
     (case input of
        None \<Rightarrow> (Exit 0, emit [Prompt, Stdout [S (CHR 0x0A # ''Exiting shell.'' @ [CHR 0x0A])]] w)
      | Some l \<Rightarrow>
          (let line = trim l; w0 = emit [Prompt] w
           in if line = [] then (Return (), w0)
              else
                (case parse_pipeline (split_tokens line) of
                   (pl, bg) \<Rightarrow>
                     if pl = [] then (Return (), w0)
                     else if length pl = 1 \<and> is_builtin (argv (pl ! 0))
                             \<and> infile (pl ! 0) = [] \<and> outfile (pl ! 0) = [] then
                       (case run_builtin o_s (argv (pl ! 0)) w0 of
                          (Return r, w1) \<Rightarrow> (Return (), w1\<lparr>jobs := remove_completed_jobs (jobs w1)\<rparr>)
                        | (Exit st, w1) \<Rightarrow> (Exit st, w1)
                        | (Abort, w1) \<Rightarrow> (Abort, w1)
                        | (Exec a, w1) \<Rightarrow> (Exec a, w1))
                     else
                       (case launch_pipeline o_s pl bg line w0 of
                          (Return u, w1) \<Rightarrow> (Return (), w1\<lparr>jobs := remove_completed_jobs (jobs w1)\<rparr>)
                        | (Exit st, w1) \<Rightarrow> (Exit st, w1)
                        | (Abort, w1) \<Rightarrow> (Abort, w1)
                        | (Exec a, w1) \<Rightarrow> (Exec a, w1)))))"

section \<open>Reading the trace\<close>

text \<open>The events a call added to the trace, and tests on the kind of an event.\<close>

definition new_events :: "world \<Rightarrow> world \<Rightarrow> event list" where
  "new_events w w' = drop (length (trace w)) (trace w')"

fun is_wait :: "event \<Rightarrow> bool" where
  "is_wait (WaitPid t fl) = True"
| "is_wait e = False"

fun blocking_wait :: "event \<Rightarrow> bool" where
  "blocking_wait (WaitPid t fl) = (WNOHANG \<notin> fl)"
| "blocking_wait e = False"

fun is_tcsetpgrp :: "event \<Rightarrow> bool" where
  "is_tcsetpgrp (TcSetPgrp g) = True"
| "is_tcsetpgrp e = False"

fun is_open :: "event \<Rightarrow> bool" where
  "is_open (Open path fl) = True"
| "is_open e = False"

fun is_execvp :: "event \<Rightarrow> bool" where
  "is_execvp (Execvp a) = True"
| "is_execvp e = False"

text \<open>
  The terminal protocol of a foreground wait, read off a trace: before the hand-over no
  \<^verbatim>\<open>tcsetpgrp\<close> and no \<^verbatim>\<open>waitpid\<close>; then \<^verbatim>\<open>tcsetpgrp\<close> to the job's group \<open>g\<close>; then the
  \<^verbatim>\<open>waitpid\<close> calls on that group, at least one and nothing else between them; right after
  the last of them \<^verbatim>\<open>tcsetpgrp\<close> to the shell's group \<open>sh\<close>; and after that no
  \<^verbatim>\<open>waitpid\<close> and no \<^verbatim>\<open>tcsetpgrp\<close> again. The trace must end in the last phase.
\<close>

datatype tty_phase = Before | Handed | Waiting | Reclaimed

fun handoff :: "int \<Rightarrow> int \<Rightarrow> tty_phase \<Rightarrow> event list \<Rightarrow> bool" where
  "handoff sh g ph [] = (ph = Reclaimed)"
| "handoff sh g Before (e # es) =
     (if e = TcSetPgrp g then handoff sh g Handed es
      else \<not> is_wait e \<and> \<not> is_tcsetpgrp e \<and> handoff sh g Before es)"
| "handoff sh g Handed (e # es) = (e = WaitPid (- g) {WUNTRACED} \<and> handoff sh g Waiting es)"
| "handoff sh g Waiting (e # es) =
     (if e = TcSetPgrp sh then handoff sh g Reclaimed es
      else e = WaitPid (- g) {WUNTRACED} \<and> handoff sh g Waiting es)"
| "handoff sh g Reclaimed (e # es) =
     (\<not> is_wait e \<and> \<not> is_tcsetpgrp e \<and> handoff sh g Reclaimed es)"

text \<open>The \<^verbatim>\<open>open\<close> of a redirection that stage \<open>i\<close> performs fails.\<close>

definition in_fails :: "os \<Rightarrow> Command list \<Rightarrow> nat \<Rightarrow> bool" where
  "in_fails o_s pl i \<longleftrightarrow>
     input_redirected pl i \<and> open_ret o_s (infile (pl ! i)) {O_RDONLY} < 0"

definition out_fails :: "os \<Rightarrow> Command list \<Rightarrow> nat \<Rightarrow> bool" where
  "out_fails o_s pl i \<longleftrightarrow>
     output_redirected pl i \<and> open_ret o_s (outfile (pl ! i)) (out_flags (pl ! i)) < 0"

text \<open>
  The parser, said once more by segments, to compare \<^verbatim>\<open>parse_pipeline\<close> with. The token
  list is cut at the pipe tokens. Inside a segment the token after \<^verbatim>\<open><\<close>, \<^verbatim>\<open>>\<close> or
  \<^verbatim>\<open>>>\<close> is a file name, whatever it is; one of these three as the last token has no
  file name (\<^verbatim>\<open>>>\<close> there still asks for appending); \<^verbatim>\<open>&\<close> asks for the background; every
  other token is a word.
\<close>

datatype item =
    Word string | Redirect_in string | Redirect_out string | Redirect_append string
  | Append_only | Background

fun extend :: "item \<Rightarrow> item list list \<Rightarrow> item list list" where
  "extend x [] = [[x]]"
| "extend x (s # ss) = (x # s) # ss"

fun segments :: "string list \<Rightarrow> item list list" where
  "segments [] = [[]]"
| "segments (tk # rest) =
     (if tk = ''|'' then [] # segments rest
      else if tk = ''<'' then
        (case rest of [] \<Rightarrow> [[]] | f # rest' \<Rightarrow> extend (Redirect_in f) (segments rest'))
      else if tk = ''>'' then
        (case rest of [] \<Rightarrow> [[]] | f # rest' \<Rightarrow> extend (Redirect_out f) (segments rest'))
      else if tk = ''>>'' then
        (case rest of [] \<Rightarrow> [[Append_only]]
         | f # rest' \<Rightarrow> extend (Redirect_append f) (segments rest'))
      else if tk = ''&'' then extend Background (segments rest)
      else extend (Word tk) (segments rest))"

text \<open>
  The stage a segment describes: its words in order, the last input file and the last
  output file named in it, and the append flag once \<^verbatim>\<open>>>\<close> was seen. \<open>stage_on c\<close> goes on
  from a stage \<open>c\<close> already begun.
\<close>

fun words :: "item list \<Rightarrow> string list" where
  "words [] = []"
| "words (Word w # its) = w # words its"
| "words (x # its) = words its"

fun in_files :: "item list \<Rightarrow> string list" where
  "in_files [] = []"
| "in_files (Redirect_in f # its) = f # in_files its"
| "in_files (x # its) = in_files its"

fun out_files :: "item list \<Rightarrow> string list" where
  "out_files [] = []"
| "out_files (Redirect_out f # its) = f # out_files its"
| "out_files (Redirect_append f # its) = f # out_files its"
| "out_files (x # its) = out_files its"

fun appends :: "item list \<Rightarrow> bool" where
  "appends [] = False"
| "appends (Redirect_append f # its) = True"
| "appends (Append_only # its) = True"
| "appends (x # its) = appends its"

definition stage_on :: "Command \<Rightarrow> item list \<Rightarrow> Command" where
  "stage_on c its =
     \<lparr>argv = argv c @ words its,
      infile = (if in_files its = [] then infile c else last (in_files its)),
      outfile = (if out_files its = [] then outfile c else last (out_files its)),
      append_flag = (append_flag c \<or> appends its)\<rparr>"

definition stage_of :: "item list \<Rightarrow> Command" where
  "stage_of its = stage_on Command0 its"

text \<open>
  The stages that remain: of a segment that a pipe token ends, the stage is kept when it
  has a word; of the last segment, when it has a word, an input file or an output file.
\<close>

definition kept :: "Command list \<Rightarrow> Command list" where
  "kept stages =
     filter (\<lambda>c. argv c \<noteq> []) (butlast stages)
     @ filter (\<lambda>c. argv c \<noteq> [] \<or> infile c \<noteq> [] \<or> outfile c \<noteq> []) [last stages]"

text \<open>The stages of the tokens still to read, \<open>cur\<close> being the stage begun.\<close>

definition stages_of :: "Command \<Rightarrow> string list \<Rightarrow> Command list" where
  "stages_of cur toks = stage_on cur (hd (segments toks)) # map stage_of (tl (segments toks))"

text \<open>At most one job that is not Done for each process-group id.\<close>

definition one_job_per_live_pgid :: "Job list \<Rightarrow> bool" where
  "one_job_per_live_pgid js \<longleftrightarrow> distinct (map pgid (filter (\<lambda>j. status j \<noteq> Done) js))"



text \<open>
  A table \<open>js'\<close> that comes from \<open>js\<close> by writing states: the same jobs in the same
  places, nothing changed but state and background flag, and every state either kept or
  one of the three values the source writes.
\<close>

definition rewritten :: "Job list \<Rightarrow> Job list \<Rightarrow> bool" where
  "rewritten js js' \<longleftrightarrow>
     length js' = length js
     \<and> (\<forall>k < length js.
           js' ! k = (js ! k)\<lparr>is_background := is_background (js' ! k), status := status (js' ! k)\<rparr>
           \<and> (status (js' ! k) = status (js ! k) \<or> status (js' ! k) = Running
                \<or> status (js' ! k) = Stopped \<or> status (js' ! k) = Done))"

text \<open>
  A table in which no job is Done and every state is one the source writes, and a table
  whose states are all among the three the source writes.
\<close>

definition live_table :: "Job list \<Rightarrow> bool" where
  "live_table js \<longleftrightarrow> list_all (\<lambda>j. status j = Running \<or> status j = Stopped) js"

definition tri :: "Job list \<Rightarrow> bool" where
  "tri js \<longleftrightarrow> (\<forall>j \<in> set js. status j = Running \<or> status j = Stopped \<or> status j = Done)"

text \<open>
  The changes \<^verbatim>\<open>waitpid\<close> reports to one run of the handler, as the operating system
  gives them: for a child that has exited or was killed, \<^verbatim>\<open>waitpid\<close> has removed the
  child, so the \<^verbatim>\<open>getpgid\<close> that follows finds no such process and fails.
\<close>

definition reaped_gone :: "child_change list \<Rightarrow> bool" where
  "reaped_gone pending \<longleftrightarrow>
     list_all (\<lambda>c. (WIFEXITED (wstat c) \<or> WIFSIGNALED (wstat c)) \<longrightarrow> pgid_ret c \<le> 0) pending"

text \<open>
  The states of the shell process: it starts with an empty job table, and goes on by
  turns of the prompt loop that return to the loop (\<^verbatim>\<open>fork\<close> never answering 0: this
  process stays the shell) and by runs of the handler.
\<close>

inductive reachable :: "world \<Rightarrow> bool" where
  start: "jobs w = [] \<Longrightarrow> reachable w"
| turn: "reachable w \<Longrightarrow> 0 \<notin> set (fork_rets o_s) \<Longrightarrow> shell_step o_s input w = (Return (), w')
     \<Longrightarrow> reachable w'"
| signal: "reachable w \<Longrightarrow> reaped_gone pending \<Longrightarrow> reachable (sigchld_handler pending w)"

section \<open>Sample values\<close>

text \<open>Concrete answers of the operating system, jobs and globals, for the examples below.\<close>

definition os0 :: os where
  "os0 = \<lparr>env_home = None, chdir_ret = 0, kill_ret = 0, pipe_rets = [], fork_rets = [],
          wait_rets = [], open_ret = (\<lambda>p f. 3), execvp_returns = False, getpid_ret = 100,
          garbage = WOther\<rparr>"

definition job0 :: "int \<Rightarrow> int \<Rightarrow> int \<Rightarrow> Job" where
  "job0 i pg st =
     \<lparr>job_id = i, pgid = pg, cmdline = ''sleep 5'', is_background = True, status = st\<rparr>"

definition world0 :: "Job list \<Rightarrow> world" where
  "world0 js =
     \<lparr>jobs = js, next_job_id = 1 + int (length js), shell_pgid = 50, errno = 0, trace = []\<rparr>"

definition change0 :: "int \<Rightarrow> wstatus \<Rightarrow> int \<Rightarrow> int \<Rightarrow> child_change" where
  "change0 p st g e = \<lparr>reaped = p, wstat = st, pgid_ret = g, errno_after = e\<rparr>"

definition os_nofile :: os where
  "os_nofile = os0\<lparr>open_ret := (\<lambda>p f. if p = ''missing'' then - 1 else 3)\<rparr>"

definition cmd0 :: "string list \<Rightarrow> string \<Rightarrow> string \<Rightarrow> bool \<Rightarrow> Command" where
  "cmd0 av i out a = \<lparr>argv = av, infile = i, outfile = out, append_flag = a\<rparr>"

definition os_stop :: os where
  "os_stop = os0\<lparr>fork_rets := [200], wait_rets := [(200, WStopped)]\<rparr>"

section \<open>Idempotent transitions keyed by process group (C8)\<close>

text \<open>
  C8. \<^verbatim>\<open>mark_job_as_done\<close> and \<^verbatim>\<open>mark_job_as_stopped\<close> are idempotent and keyed by
  process-group id: applied twice to the same pgid they give the table that one
  application gives; applied to a pgid whose jobs are all Done already (Stopped already,
  for \<^verbatim>\<open>mark_job_as_stopped\<close>) they leave the table as it is; and the jobs of every other
  pgid are left as they are. So the wait path and the signal handler can both apply the
  transition.
\<close>

theorem mark_job_idempotent:
  "mark_job_as_done pg (mark_job_as_done pg js) = mark_job_as_done pg js
   \<and> mark_job_as_stopped pg (mark_job_as_stopped pg js) = mark_job_as_stopped pg js
   \<and> ((\<forall>j \<in> set js. pgid j = pg \<longrightarrow> status j = Done) \<longrightarrow> mark_job_as_done pg js = js)
   \<and> ((\<forall>j \<in> set js. pgid j = pg \<longrightarrow> status j = Stopped) \<longrightarrow> mark_job_as_stopped pg js = js)
   \<and> filter (\<lambda>j. pgid j \<noteq> pg) (mark_job_as_done pg js) = filter (\<lambda>j. pgid j \<noteq> pg) js
   \<and> filter (\<lambda>j. pgid j \<noteq> pg) (mark_job_as_stopped pg js) = filter (\<lambda>j. pgid j \<noteq> pg) js"
proof -
  have idem_done: "mark_job_as_done pg (mark_job_as_done pg js) = mark_job_as_done pg js"
    by (simp add: mark_job_as_done_def)
  have idem_stopped:
    "mark_job_as_stopped pg (mark_job_as_stopped pg js) = mark_job_as_stopped pg js"
    by (simp add: mark_job_as_stopped_def)
  have same_done: "mark_job_as_done pg js = js"
    if "\<forall>j \<in> set js. pgid j = pg \<longrightarrow> status j = Done"
    using that unfolding mark_job_as_done_def by (induction js) auto
  have same_stopped: "mark_job_as_stopped pg js = js"
    if "\<forall>j \<in> set js. pgid j = pg \<longrightarrow> status j = Stopped"
    using that unfolding mark_job_as_stopped_def by (induction js) auto
  have frame_done:
    "filter (\<lambda>j. pgid j \<noteq> pg) (mark_job_as_done pg js) = filter (\<lambda>j. pgid j \<noteq> pg) js"
    unfolding mark_job_as_done_def by (induction js) auto
  have frame_stopped:
    "filter (\<lambda>j. pgid j \<noteq> pg) (mark_job_as_stopped pg js) = filter (\<lambda>j. pgid j \<noteq> pg) js"
    unfolding mark_job_as_stopped_def by (induction js) auto
  from idem_done idem_stopped same_done same_stopped frame_done frame_stopped
  show ?thesis by blast
qed

theorem mark_job_idempotent_witness:
  "pgid (job0 1 7 Done) = 7 \<and> status (job0 1 7 Done) = Done \<and> pgid (job0 2 8 Running) \<noteq> 7
   \<and> mark_job_as_done 7 [job0 1 7 Done, job0 2 8 Running] = [job0 1 7 Done, job0 2 8 Running]
   \<and> status (job0 1 7 Stopped) = Stopped
   \<and> mark_job_as_stopped 7 [job0 1 7 Stopped, job0 2 8 Running]
       = [job0 1 7 Stopped, job0 2 8 Running]"
  using mark_job_idempotent [of 7 "[job0 1 7 Done, job0 2 8 Running]"]
    mark_job_idempotent [of 7 "[job0 1 7 Stopped, job0 2 8 Running]"]
  by (simp add: job0_def)

section \<open>The child-state-change handler keeps errno and does not block (C9)\<close>

lemma reap_loop_trace:
  "\<exists>evs. trace (reap_loop pending w) = trace w @ evs
     \<and> length (filter is_wait evs) = Suc (length (takeWhile (\<lambda>c. reaped c > 0) pending))
     \<and> \<not> list_ex blocking_wait evs"
proof (induction pending arbitrary: w)
  case Nil
  show ?case by (simp add: emit_def reap_flags_def)
next
  case (Cons c cs)
  show ?case
  proof (cases "reaped c \<le> 0")
    case True
    then show ?thesis by (simp add: emit_def reap_flags_def)
  next
    case False
    define w3 where "w3 = (emit [Getpgid (reaped c)] (emit [WaitPid (- 1) reap_flags] (w\<lparr>errno := errno_after c\<rparr>)))
        \<lparr>jobs := reconcile c (jobs w)\<rparr>"
    from Cons.IH [of w3] obtain evs where
      evs: "trace (reap_loop cs w3) = trace w3 @ evs"
        "length (filter is_wait evs) = Suc (length (takeWhile (\<lambda>c. reaped c > 0) cs))"
        "\<not> list_ex blocking_wait evs"
      by blast
    have step: "reap_loop (c # cs) w = reap_loop cs w3"
      using False by (simp add: w3_def Let_def emit_def)
    have tr: "trace w3 = trace w @ [WaitPid (- 1) reap_flags, Getpgid (reaped c)]"
      by (simp add: w3_def emit_def)
    show ?thesis
      using evs False unfolding step tr
      by (intro exI [of _ "[WaitPid (- 1) reap_flags, Getpgid (reaped c)] @ evs"])
         (simp add: reap_flags_def)
  qed
qed

text \<open>
  C9. Whatever state changes are pending and whatever the calls inside the handler leave
  in \<^verbatim>\<open>errno\<close>, \<^verbatim>\<open>errno\<close> after \<^verbatim>\<open>sigchld_handler\<close> is what it was before. The handler
  only adds to the trace; it calls \<^verbatim>\<open>waitpid\<close> once for each pending change that
  \<^verbatim>\<open>waitpid\<close> reports with a positive pid and once more (the call that ends the loop),
  so at most once more than there are pending changes; and every one of these calls has
  \<^verbatim>\<open>WNOHANG\<close>, so none blocks.
\<close>

theorem sigchld_handler_errno:
  "errno (sigchld_handler pending w) = errno w
   \<and> take (length (trace w)) (trace (sigchld_handler pending w)) = trace w
   \<and> length (filter is_wait (new_events w (sigchld_handler pending w)))
       = Suc (length (takeWhile (\<lambda>c. reaped c > 0) pending))
   \<and> length (filter is_wait (new_events w (sigchld_handler pending w))) \<le> Suc (length pending)
   \<and> \<not> list_ex blocking_wait (new_events w (sigchld_handler pending w))"
proof -
  obtain evs where evs: "trace (reap_loop pending w) = trace w @ evs"
      "length (filter is_wait evs) = Suc (length (takeWhile (\<lambda>c. reaped c > 0) pending))"
      "\<not> list_ex blocking_wait evs"
    using reap_loop_trace by blast
  have tr: "trace (sigchld_handler pending w) = trace w @ evs"
    using evs(1) by (simp add: sigchld_handler_def)
  have bound: "length (takeWhile (\<lambda>c. reaped c > 0) pending) \<le> length pending"
    by (rule length_takeWhile_le)
  show ?thesis
    using evs(2,3) bound by (simp add: tr new_events_def) (simp add: sigchld_handler_def)
qed

theorem sigchld_handler_errno_witness:
  "errno (sigchld_handler [change0 200 WStopped 200 0, change0 201 WExited (- 1) 3]
            ((world0 [job0 1 200 Running])\<lparr>errno := 4\<rparr>)) = 4
   \<and> length (filter is_wait (new_events ((world0 [job0 1 200 Running])\<lparr>errno := 4\<rparr>)
        (sigchld_handler [change0 200 WStopped 200 0, change0 201 WExited (- 1) 3]
            ((world0 [job0 1 200 Running])\<lparr>errno := 4\<rparr>)))) = 3"
  using sigchld_handler_errno [of "[change0 200 WStopped 200 0, change0 201 WExited (- 1) 3]"
      "(world0 [job0 1 200 Running])\<lparr>errno := 4\<rparr>"]
  by (simp add: change0_def)

section \<open>What a child stage does\<close>

lemma jobs_lines_plain:
  "filter is_open (map jobs_line js) = [] \<and> filter is_execvp (map jobs_line js) = []"
  by (induction js) (simp_all add: jobs_line_def)

lemma run_builtin_trace:
  "\<exists>evs. trace (snd (run_builtin o_s av w)) = trace w @ evs
     \<and> filter is_open evs = [] \<and> filter is_execvp evs = []"
  by (auto simp: run_builtin_def fg_job_def bg_job_def emit_def Let_def jobs_lines_plain
      split: list.splits sum.splits option.splits)

lemma run_builtin_no_exec: "fst (run_builtin o_s av w) \<noteq> Exec a"
  by (auto simp: run_builtin_def split: list.splits sum.splits option.splits)

lemma child_redirect_trace:
  "\<exists>evs. trace (snd (child_redirect o_s pl i w)) = trace w @ evs
     \<and> filter is_execvp evs = []
     \<and> filter is_open evs =
         (if input_redirected pl i then [Open (infile (pl ! i)) {O_RDONLY}] else [])
         @ (if output_redirected pl i \<and> \<not> in_fails o_s pl i
            then [Open (outfile (pl ! i)) (out_flags (pl ! i))] else [])"
  by (simp add: child_redirect_def emit_def Let_def in_fails_def)

lemma child_redirect_outcome:
  "fst (child_redirect o_s pl i w) =
     (if in_fails o_s pl i \<or> out_fails o_s pl i then Exit 1 else Return ())"
  by (simp add: child_redirect_def Let_def in_fails_def out_fails_def)

lemma child_redirect_in_fails:
  "in_fails o_s pl i \<Longrightarrow>
     child_redirect o_s pl i w =
       (Exit 1, emit [Open (infile (pl ! i)) {O_RDONLY}, Perror ''open infile''] w)"
  by (simp add: child_redirect_def emit_def Let_def in_fails_def)

lemma child_stage_cases:
  "child_stage o_s pl i bg pg0 fds w =
     (if in_fails o_s pl i \<or> out_fails o_s pl i
      then (Exit 1, snd (child_redirect o_s pl i (emit (child_setup o_s pl i bg pg0 fds) w)))
      else child_exec o_s (pl ! i)
             (emit (close_all fds)
                (snd (child_redirect o_s pl i (emit (child_setup o_s pl i bg pg0 fds) w)))))"
proof -
  obtain r w2 where red: "child_redirect o_s pl i (emit (child_setup o_s pl i bg pg0 fds) w) = (r, w2)"
    by (cases "child_redirect o_s pl i (emit (child_setup o_s pl i bg pg0 fds) w)")
  have "r = (if in_fails o_s pl i \<or> out_fails o_s pl i then Exit 1 else Return ())"
    using child_redirect_outcome [of o_s pl i "emit (child_setup o_s pl i bg pg0 fds) w"] red
    by simp
  then show ?thesis
    using red by (simp add: child_stage_def)
qed

lemma child_exec_trace:
  "\<exists>evs. trace (snd (child_exec o_s c w)) = trace w @ evs \<and> filter is_open evs = []
     \<and> (argv c = [] \<or> is_builtin (argv c) \<longrightarrow> filter is_execvp evs = [])"
proof -
  obtain evs where "trace (snd (run_builtin o_s (argv c) w)) = trace w @ evs"
      "filter is_open evs = []" "filter is_execvp evs = []"
    using run_builtin_trace by blast
  then show ?thesis
    by (cases "run_builtin o_s (argv c) w"; cases "fst (run_builtin o_s (argv c) w)")
       (auto simp: child_exec_def emit_def)
qed

lemma child_stage_trace:
  "\<exists>evs. trace (snd (child_stage o_s pl i bg pg0 fds w)) = trace w @ evs
     \<and> filter is_open evs =
         (if input_redirected pl i then [Open (infile (pl ! i)) {O_RDONLY}] else [])
         @ (if output_redirected pl i \<and> \<not> in_fails o_s pl i
            then [Open (outfile (pl ! i)) (out_flags (pl ! i))] else [])
     \<and> (argv (pl ! i) = [] \<or> is_builtin (argv (pl ! i)) \<longrightarrow> filter is_execvp evs = [])"
proof -
  define pre where "pre = child_setup o_s pl i bg pg0 fds"
  define w2 where "w2 = snd (child_redirect o_s pl i (emit pre w))"
  have pre_plain: "filter is_open pre = []" "filter is_execvp pre = []"
    by (simp_all add: pre_def child_setup_def Let_def)
  have close_plain: "filter is_open (close_all fds) = []" "filter is_execvp (close_all fds) = []"
    by (induction fds) (simp_all add: close_all_def)
  obtain evs2 where evs2: "trace w2 = trace w @ pre @ evs2"
      "filter is_execvp evs2 = []"
      "filter is_open evs2 =
         (if input_redirected pl i then [Open (infile (pl ! i)) {O_RDONLY}] else [])
         @ (if output_redirected pl i \<and> \<not> in_fails o_s pl i
            then [Open (outfile (pl ! i)) (out_flags (pl ! i))] else [])"
    using child_redirect_trace [of o_s pl i "emit pre w"] by (auto simp: w2_def emit_def)
  obtain evs3 where evs3:
      "trace (snd (child_exec o_s (pl ! i) (emit (close_all fds) w2)))
         = trace w2 @ close_all fds @ evs3"
      "filter is_open evs3 = []"
      "argv (pl ! i) = [] \<or> is_builtin (argv (pl ! i)) \<longrightarrow> filter is_execvp evs3 = []"
    using child_exec_trace [of o_s "pl ! i" "emit (close_all fds) w2"] by (auto simp: emit_def)
  show ?thesis
  proof (cases "in_fails o_s pl i \<or> out_fails o_s pl i")
    case True
    then have "trace (snd (child_stage o_s pl i bg pg0 fds w)) = trace w @ (pre @ evs2)"
      using evs2(1) by (simp add: child_stage_cases pre_def w2_def)
    moreover have "filter is_open (pre @ evs2) = filter is_open evs2"
      "filter is_execvp (pre @ evs2) = []"
      using pre_plain evs2(2) by simp_all
    ultimately show ?thesis using evs2(3) by metis
  next
    case False
    then have "trace (snd (child_stage o_s pl i bg pg0 fds w))
        = trace w @ (pre @ evs2 @ close_all fds @ evs3)"
      using evs2(1) evs3(1) by (simp add: child_stage_cases pre_def w2_def)
    moreover have "filter is_open (pre @ evs2 @ close_all fds @ evs3) = filter is_open evs2"
      using pre_plain close_plain evs3(2) by simp
    moreover have "argv (pl ! i) = [] \<or> is_builtin (argv (pl ! i))
        \<longrightarrow> filter is_execvp (pre @ evs2 @ close_all fds @ evs3) = []"
      using pre_plain close_plain evs2(2) evs3(3) by simp
    ultimately show ?thesis using evs2(3) by metis
  qed
qed

lemma child_stage_in_fails:
  assumes "in_fails o_s pl i"
  shows "fst (child_stage o_s pl i bg pg0 fds w) = Exit 1
     \<and> (\<exists>pre. new_events w (snd (child_stage o_s pl i bg pg0 fds w))
            = pre @ [Open (infile (pl ! i)) {O_RDONLY}, Perror ''open infile''])"
  using assms by (simp add: child_stage_def child_redirect_in_fails emit_def new_events_def)

section \<open>Redirection flags (C6)\<close>

text \<open>
  C6. The \<^verbatim>\<open>open\<close> calls of the child for stage \<open>i\<close> are exactly these, in this order:
  when \<open>i\<close> is the first stage and has an input redirection, the input file, read-only;
  then, when \<open>i\<close> is the last stage and has an output redirection (and the input file,
  if any, could be opened), the output file, write-only with create, and with append when
  the stage's append flag is set and truncate when it is not. No other stage opens a
  file. When the input file cannot be opened the stage ends at once with exit status 1:
  after the failed \<^verbatim>\<open>open\<close> it only prints the error.
\<close>

theorem redirection_open_flags:
  "filter is_open (new_events w (snd (child_stage o_s pl i bg pg0 fds w)))
     = (if i = 0 \<and> infile (pl ! i) \<noteq> [] then [Open (infile (pl ! i)) {O_RDONLY}] else [])
       @ (if (i = length pl - 1 \<and> outfile (pl ! i) \<noteq> [])
             \<and> \<not> ((i = 0 \<and> infile (pl ! i) \<noteq> []) \<and> open_ret o_s (infile (pl ! i)) {O_RDONLY} < 0)
          then [Open (outfile (pl ! i))
                  {O_WRONLY, O_CREAT, if append_flag (pl ! i) then O_APPEND else O_TRUNC}]
          else [])
   \<and> ((i = 0 \<and> infile (pl ! i) \<noteq> []) \<and> open_ret o_s (infile (pl ! i)) {O_RDONLY} < 0 \<longrightarrow>
        fst (child_stage o_s pl i bg pg0 fds w) = Exit 1
        \<and> (\<exists>pre. new_events w (snd (child_stage o_s pl i bg pg0 fds w))
              = pre @ [Open (infile (pl ! i)) {O_RDONLY}, Perror ''open infile'']))"
proof -
  obtain evs where evs: "trace (snd (child_stage o_s pl i bg pg0 fds w)) = trace w @ evs"
      "filter is_open evs =
         (if input_redirected pl i then [Open (infile (pl ! i)) {O_RDONLY}] else [])
         @ (if output_redirected pl i \<and> \<not> in_fails o_s pl i
            then [Open (outfile (pl ! i)) (out_flags (pl ! i))] else [])"
    using child_stage_trace by blast
  have new: "new_events w (snd (child_stage o_s pl i bg pg0 fds w)) = evs"
    using evs(1) by (simp add: new_events_def)
  have opens: "filter is_open (new_events w (snd (child_stage o_s pl i bg pg0 fds w))) =
         (if input_redirected pl i then [Open (infile (pl ! i)) {O_RDONLY}] else [])
         @ (if output_redirected pl i \<and> \<not> in_fails o_s pl i
            then [Open (outfile (pl ! i)) (out_flags (pl ! i))] else [])"
    using evs(2) new by simp
  have fails: "in_fails o_s pl i \<longrightarrow>
        fst (child_stage o_s pl i bg pg0 fds w) = Exit 1
        \<and> (\<exists>pre. new_events w (snd (child_stage o_s pl i bg pg0 fds w))
              = pre @ [Open (infile (pl ! i)) {O_RDONLY}, Perror ''open infile''])"
    using child_stage_in_fails by blast
  from opens fails show ?thesis
    unfolding input_redirected_def output_redirected_def in_fails_def out_flags_def
    by (rule conjI)
qed

theorem redirection_open_flags_witness:
  "infile (cmd0 [''cat''] ''missing'' ''out'' True) \<noteq> []
   \<and> open_ret os_nofile ''missing'' {O_RDONLY} < 0
   \<and> fst (child_stage os_nofile [cmd0 [''cat''] ''missing'' ''out'' True] 0 False 0 [] (world0 []))
       = Exit 1
   \<and> filter is_open (new_events (world0 [])
        (snd (child_stage os_nofile [cmd0 [''cat''] ''missing'' ''out'' True] 0 False 0 [] (world0 []))))
       = [Open ''missing'' {O_RDONLY}]
   \<and> filter is_open (new_events (world0 [])
        (snd (child_stage os0 [cmd0 [''cat''] ''in'' ''out'' True] 0 False 0 [] (world0 []))))
       = [Open ''in'' {O_RDONLY}, Open ''out'' {O_WRONLY, O_CREAT, O_APPEND}]"
  using redirection_open_flags [of "world0 []" os_nofile "[cmd0 [''cat''] ''missing'' ''out'' True]" 0 False 0 "[]"]
    redirection_open_flags [of "world0 []" os0 "[cmd0 [''cat''] ''in'' ''out'' True]" 0 False 0 "[]"]
  by (simp add: cmd0_def os_nofile_def os0_def)

section \<open>A built-in as a pipeline stage (C7)\<close>

text \<open>
  C7 as stated fails, in its part that the child ends with the status the built-in
  returned: for the stage \<^verbatim>\<open>fg 3\<close> of \<^verbatim>\<open>fg 3 | cat\<close> with an empty job table
  \<^verbatim>\<open>run_builtin\<close> returns -1, and the child exits with status 0.
\<close>

theorem builtin_stage_exit_status_counterexample:
  "is_builtin (argv (cmd0 [''fg'', ''3''] [] [] False))
   \<and> fst (run_builtin os0 (argv (cmd0 [''fg'', ''3''] [] [] False)) (world0 [])) = Return (- 1)
   \<and> fst (child_exec os0 (cmd0 [''fg'', ''3''] [] [] False) (world0 [])) = Exit 0
   \<and> fst (child_stage os0 [cmd0 [''fg'', ''3''] [] [] False, cmd0 [''cat''] [] [] False] 0 False 0
            [3, 4] (world0 [])) = Exit 0"
  by code_simp

text \<open>
  C7 as amended. A stage whose program name is a built-in never calls \<^verbatim>\<open>execvp\<close> and
  never becomes another program. When an \<^verbatim>\<open>open\<close> for a redirection of the stage fails
  (the input file at the first stage, the output file at the last), the child exits with
  status 1 as the redirection left it, and the built-in is not run. Otherwise the child
  runs \<^verbatim>\<open>run_builtin\<close> in its own process, after the redirections and the closing of the
  pipe descriptors, and ends as the built-in leaves it: when the built-in returns,
  whatever value it returns, the child exits with status 0 (the source discards the
  value and calls \<^verbatim>\<open>exit(0)\<close>); when the built-in itself calls \<^verbatim>\<open>exit\<close>, with that
  status; when \<^verbatim>\<open>stoi\<close> throws in it, the child is aborted.
\<close>

theorem builtin_stage_in_child:
  assumes "is_builtin (argv (pl ! i))"
  shows "filter is_execvp (new_events w (snd (child_stage o_s pl i bg pg0 fds w))) = []
     \<and> (\<forall>a. fst (child_stage o_s pl i bg pg0 fds w) \<noteq> Exec a)
     \<and> (in_fails o_s pl i \<or> out_fails o_s pl i \<longrightarrow>
          child_stage o_s pl i bg pg0 fds w
            = (Exit 1, snd (child_redirect o_s pl i (emit (child_setup o_s pl i bg pg0 fds) w))))
     \<and> (\<not> in_fails o_s pl i \<and> \<not> out_fails o_s pl i \<longrightarrow>
          snd (child_stage o_s pl i bg pg0 fds w)
            = snd (run_builtin o_s (argv (pl ! i))
                (emit (close_all fds)
                   (snd (child_redirect o_s pl i (emit (child_setup o_s pl i bg pg0 fds) w)))))
          \<and> (\<forall>r. fst (run_builtin o_s (argv (pl ! i))
                (emit (close_all fds)
                   (snd (child_redirect o_s pl i (emit (child_setup o_s pl i bg pg0 fds) w)))))
                  = Return r
               \<longrightarrow> fst (child_stage o_s pl i bg pg0 fds w) = Exit 0)
          \<and> (\<forall>st. fst (run_builtin o_s (argv (pl ! i))
                (emit (close_all fds)
                   (snd (child_redirect o_s pl i (emit (child_setup o_s pl i bg pg0 fds) w)))))
                  = Exit st
               \<longrightarrow> fst (child_stage o_s pl i bg pg0 fds w) = Exit st)
          \<and> (fst (run_builtin o_s (argv (pl ! i))
                (emit (close_all fds)
                   (snd (child_redirect o_s pl i (emit (child_setup o_s pl i bg pg0 fds) w)))))
                  = Abort
               \<longrightarrow> fst (child_stage o_s pl i bg pg0 fds w) = Abort))"
proof -
  define v where "v = emit (close_all fds)
      (snd (child_redirect o_s pl i (emit (child_setup o_s pl i bg pg0 fds) w)))"
  have nonempty: "argv (pl ! i) \<noteq> []"
    using assms by (auto simp: is_builtin_def)
  have exec_eq: "child_exec o_s (pl ! i) u =
      (case run_builtin o_s (argv (pl ! i)) u of
         (Return r, u') \<Rightarrow> (Exit 0, u')
       | (Exit st, u') \<Rightarrow> (Exit st, u')
       | (Abort, u') \<Rightarrow> (Abort, u')
       | (Exec a, u') \<Rightarrow> (Exec a, u'))" for u
    using assms nonempty by (simp add: child_exec_def)
  have exec_world: "snd (child_exec o_s (pl ! i) u) = snd (run_builtin o_s (argv (pl ! i)) u)" for u
    unfolding exec_eq
    by (cases "run_builtin o_s (argv (pl ! i)) u"; cases "fst (run_builtin o_s (argv (pl ! i)) u)")
       auto
  have exec_out: "fst (child_exec o_s (pl ! i) u) \<noteq> Exec a" for u a
    using run_builtin_no_exec [of o_s "argv (pl ! i)" u] unfolding exec_eq
    by (cases "run_builtin o_s (argv (pl ! i)) u"; cases "fst (run_builtin o_s (argv (pl ! i)) u)")
       auto
  have exec_zero: "fst (child_exec o_s (pl ! i) u) = Exit 0"
    if "fst (run_builtin o_s (argv (pl ! i)) u) = Return r" for u r
    using that unfolding exec_eq by (cases "run_builtin o_s (argv (pl ! i)) u") auto
  have exec_exit: "fst (child_exec o_s (pl ! i) u) = Exit st"
    if "fst (run_builtin o_s (argv (pl ! i)) u) = Exit st" for u st
    using that unfolding exec_eq by (cases "run_builtin o_s (argv (pl ! i)) u") auto
  have exec_abort: "fst (child_exec o_s (pl ! i) u) = Abort"
    if "fst (run_builtin o_s (argv (pl ! i)) u) = Abort" for u
    using that unfolding exec_eq by (cases "run_builtin o_s (argv (pl ! i)) u") auto
  obtain evs where evs: "trace (snd (child_stage o_s pl i bg pg0 fds w)) = trace w @ evs"
      "filter is_execvp evs = []"
    using child_stage_trace [of o_s pl i bg pg0 fds w] assms by blast
  have no_execvp: "filter is_execvp (new_events w (snd (child_stage o_s pl i bg pg0 fds w))) = []"
    using evs by (simp add: new_events_def)
  have stage_out: "\<forall>a. fst (child_stage o_s pl i bg pg0 fds w) \<noteq> Exec a"
    using exec_out by (simp add: child_stage_cases)
  have failed: "in_fails o_s pl i \<or> out_fails o_s pl i \<longrightarrow>
          child_stage o_s pl i bg pg0 fds w
            = (Exit 1, snd (child_redirect o_s pl i (emit (child_setup o_s pl i bg pg0 fds) w)))"
    by (simp add: child_stage_cases)
  have run: "\<not> in_fails o_s pl i \<and> \<not> out_fails o_s pl i \<longrightarrow>
          snd (child_stage o_s pl i bg pg0 fds w) = snd (run_builtin o_s (argv (pl ! i)) v)
          \<and> (\<forall>r. fst (run_builtin o_s (argv (pl ! i)) v) = Return r
               \<longrightarrow> fst (child_stage o_s pl i bg pg0 fds w) = Exit 0)
          \<and> (\<forall>st. fst (run_builtin o_s (argv (pl ! i)) v) = Exit st
               \<longrightarrow> fst (child_stage o_s pl i bg pg0 fds w) = Exit st)
          \<and> (fst (run_builtin o_s (argv (pl ! i)) v) = Abort
               \<longrightarrow> fst (child_stage o_s pl i bg pg0 fds w) = Abort)"
  proof
    assume "\<not> in_fails o_s pl i \<and> \<not> out_fails o_s pl i"
    then have stage: "child_stage o_s pl i bg pg0 fds w = child_exec o_s (pl ! i) v"
      by (simp add: child_stage_cases v_def)
    show "snd (child_stage o_s pl i bg pg0 fds w) = snd (run_builtin o_s (argv (pl ! i)) v)
          \<and> (\<forall>r. fst (run_builtin o_s (argv (pl ! i)) v) = Return r
               \<longrightarrow> fst (child_stage o_s pl i bg pg0 fds w) = Exit 0)
          \<and> (\<forall>st. fst (run_builtin o_s (argv (pl ! i)) v) = Exit st
               \<longrightarrow> fst (child_stage o_s pl i bg pg0 fds w) = Exit st)
          \<and> (fst (run_builtin o_s (argv (pl ! i)) v) = Abort
               \<longrightarrow> fst (child_stage o_s pl i bg pg0 fds w) = Abort)"
      unfolding stage using exec_world exec_zero exec_exit exec_abort by blast
  qed
  from no_execvp stage_out failed run show ?thesis
    unfolding v_def by (intro conjI)
qed

theorem builtin_stage_in_child_witness:
  "is_builtin (argv ([cmd0 [''fg'', ''3''] [] [] False, cmd0 [''cat''] [] [] False] ! 0))
   \<and> \<not> in_fails os0 [cmd0 [''fg'', ''3''] [] [] False, cmd0 [''cat''] [] [] False] 0
   \<and> \<not> out_fails os0 [cmd0 [''fg'', ''3''] [] [] False, cmd0 [''cat''] [] [] False] 0
   \<and> fst (run_builtin os0 [''fg'', ''3'']
        (emit (close_all [3, 4])
           (snd (child_redirect os0 [cmd0 [''fg'', ''3''] [] [] False, cmd0 [''cat''] [] [] False] 0
              (emit (child_setup os0 [cmd0 [''fg'', ''3''] [] [] False, cmd0 [''cat''] [] [] False]
                 0 False 0 [3, 4]) (world0 [])))))) = Return (- 1)
   \<and> fst (child_stage os0 [cmd0 [''fg'', ''3''] [] [] False, cmd0 [''cat''] [] [] False] 0 False 0
            [3, 4] (world0 [])) = Exit 0
   \<and> is_builtin (argv ([cmd0 [''jobs''] ''missing'' [] False] ! 0))
   \<and> in_fails os_nofile [cmd0 [''jobs''] ''missing'' [] False] 0
   \<and> fst (child_stage os_nofile [cmd0 [''jobs''] ''missing'' [] False] 0 False 0 []
        (world0 [job0 1 200 Running])) = Exit 1
   \<and> new_events (world0 [job0 1 200 Running])
        (snd (child_stage os_nofile [cmd0 [''jobs''] ''missing'' [] False] 0 False 0 []
           (world0 [job0 1 200 Running])))
       = [SetPgid 0 100, TcSetPgrp 100, SignalDfl SIGINT, SignalDfl SIGTSTP, SignalDfl SIGCHLD,
          Open ''missing'' {O_RDONLY}, Perror ''open infile'']"
proof -
  let ?pl = "[cmd0 [''fg'', ''3''] [] [] False, cmd0 [''cat''] [] [] False]"
  let ?ql = "[cmd0 [''jobs''] ''missing'' [] False]"
  have builtin: "is_builtin (argv (?pl ! 0))"
    by code_simp
  have opens_ok: "\<not> in_fails os0 ?pl 0" "\<not> out_fails os0 ?pl 0"
    by code_simp+
  have name: "argv (?pl ! 0) = [''fg'', ''3'']"
    by code_simp
  have ret: "fst (run_builtin os0 [''fg'', ''3'']
        (emit (close_all [3, 4])
           (snd (child_redirect os0 ?pl 0
              (emit (child_setup os0 ?pl 0 False 0 [3, 4]) (world0 [])))))) = Return (- 1)"
    by code_simp
  note fg = builtin_stage_in_child [OF builtin, where w = "world0 []" and o_s = os0 and bg = False
      and ?pg0.0 = 0 and fds = "[3, 4]"]
  have "\<forall>r. fst (run_builtin os0 (argv (?pl ! 0))
        (emit (close_all [3, 4])
           (snd (child_redirect os0 ?pl 0
              (emit (child_setup os0 ?pl 0 False 0 [3, 4]) (world0 [])))))) = Return r
      \<longrightarrow> fst (child_stage os0 ?pl 0 False 0 [3, 4] (world0 [])) = Exit 0"
    using fg [THEN conjunct2, THEN conjunct2, THEN conjunct2] opens_ok by blast
  then have zero: "fst (child_stage os0 ?pl 0 False 0 [3, 4] (world0 [])) = Exit 0"
    using ret unfolding name by blast
  have builtin2: "is_builtin (argv (?ql ! 0))"
    by code_simp
  have fails: "in_fails os_nofile ?ql 0"
    by code_simp
  note jobs = builtin_stage_in_child [OF builtin2, where w = "world0 [job0 1 200 Running]"
      and o_s = os_nofile and bg = False and ?pg0.0 = 0 and fds = "[]"]
  have stage: "child_stage os_nofile ?ql 0 False 0 [] (world0 [job0 1 200 Running])
      = (Exit 1, snd (child_redirect os_nofile ?ql 0
           (emit (child_setup os_nofile ?ql 0 False 0 []) (world0 [job0 1 200 Running]))))"
    using jobs [THEN conjunct2, THEN conjunct2, THEN conjunct1] fails by blast
  have one: "fst (child_stage os_nofile ?ql 0 False 0 [] (world0 [job0 1 200 Running])) = Exit 1"
    unfolding stage by simp
  have evs: "new_events (world0 [job0 1 200 Running])
        (snd (child_stage os_nofile ?ql 0 False 0 [] (world0 [job0 1 200 Running])))
       = [SetPgid 0 100, TcSetPgrp 100, SignalDfl SIGINT, SignalDfl SIGTSTP, SignalDfl SIGCHLD,
          Open ''missing'' {O_RDONLY}, Perror ''open infile'']"
    unfolding stage by code_simp
  from builtin opens_ok ret zero builtin2 fails one evs show ?thesis
    by (intro conjI)
qed

section \<open>A trailing stage with a redirection and no program name (C10)\<close>

lemma parse_loop_pipe:
  "parse_loop (''|'' # rest) cur pl bg =
     parse_loop rest Command0 (if argv cur \<noteq> [] then pl @ [cur] else pl) bg"
  by simp

lemma parse_loop_in:
  "parse_loop (''<'' # f # rest) cur pl bg = parse_loop rest (cur\<lparr>infile := f\<rparr>) pl bg"
  "parse_loop [''<''] cur pl bg = parse_loop [] cur pl bg"
  by simp_all

lemma parse_loop_out:
  "parse_loop (''>'' # f # rest) cur pl bg = parse_loop rest (cur\<lparr>outfile := f\<rparr>) pl bg"
  "parse_loop [''>''] cur pl bg = parse_loop [] cur pl bg"
  "parse_loop (''>>'' # f # rest) cur pl bg =
     parse_loop rest (cur\<lparr>append_flag := True, outfile := f\<rparr>) pl bg"
  "parse_loop [''>>''] cur pl bg = parse_loop [] (cur\<lparr>append_flag := True\<rparr>) pl bg"
  by simp_all

lemma parse_loop_amp:
  "parse_loop (''&'' # rest) cur pl bg = parse_loop rest cur pl True"
  by simp

lemma parse_loop_word:
  "tk \<noteq> ''|'' \<Longrightarrow> tk \<noteq> ''<'' \<Longrightarrow> tk \<noteq> ''>'' \<Longrightarrow> tk \<noteq> ''>>'' \<Longrightarrow> tk \<noteq> ''&'' \<Longrightarrow>
     parse_loop (tk # rest) cur pl bg = parse_loop rest (cur\<lparr>argv := argv cur @ [tk]\<rparr>) pl bg"
  by simp

lemma extend_parts: "ss \<noteq> [] \<Longrightarrow> hd (extend x ss) = x # hd ss \<and> tl (extend x ss) = tl ss"
  by (cases ss) simp_all

lemma extend_nonempty: "extend x ss \<noteq> []"
  by (cases ss) simp_all

lemma segments_nonempty: "segments toks \<noteq> []"
  by (cases toks) (simp_all add: extend_nonempty split: list.split)

lemma stage_on_nil: "stage_on c [] = c"
  by (simp add: stage_on_def)

lemma stage_on_item:
  "stage_on c (Word t # its) = stage_on (c\<lparr>argv := argv c @ [t]\<rparr>) its"
  "stage_on c (Redirect_in f # its) = stage_on (c\<lparr>infile := f\<rparr>) its"
  "stage_on c (Redirect_out f # its) = stage_on (c\<lparr>outfile := f\<rparr>) its"
  "stage_on c (Redirect_append f # its) = stage_on (c\<lparr>append_flag := True, outfile := f\<rparr>) its"
  "stage_on c (Append_only # its) = stage_on (c\<lparr>append_flag := True\<rparr>) its"
  "stage_on c (Background # its) = stage_on c its"
  by (simp_all add: stage_on_def)

lemma stages_of_all: "map stage_of (segments toks) = stages_of Command0 toks"
  using segments_nonempty [of toks]
  by (cases "segments toks") (simp_all add: stages_of_def stage_of_def)

lemma stages_of_nonempty: "stages_of cur toks \<noteq> []"
  by (simp add: stages_of_def)

lemma stages_nil: "stages_of cur [] = [cur]"
  by (simp add: stages_of_def stage_on_nil)

lemma stages_pipe: "stages_of cur (''|'' # rest) = cur # stages_of Command0 rest"
  by (simp add: stages_of_def stage_on_nil stages_of_all [unfolded stages_of_def])

lemma stages_in:
  "stages_of cur (''<'' # f # rest) = stages_of (cur\<lparr>infile := f\<rparr>) rest"
  "stages_of cur [''<''] = [cur]"
  by (simp_all add: stages_of_def extend_parts segments_nonempty stage_on_item stage_on_nil)

lemma stages_out:
  "stages_of cur (''>'' # f # rest) = stages_of (cur\<lparr>outfile := f\<rparr>) rest"
  "stages_of cur [''>''] = [cur]"
  "stages_of cur (''>>'' # f # rest) = stages_of (cur\<lparr>append_flag := True, outfile := f\<rparr>) rest"
  "stages_of cur [''>>''] = [cur\<lparr>append_flag := True\<rparr>]"
  by (simp_all add: stages_of_def extend_parts segments_nonempty stage_on_item stage_on_nil)

lemma stages_amp: "stages_of cur (''&'' # rest) = stages_of cur rest"
  by (simp add: stages_of_def extend_parts segments_nonempty stage_on_item)

lemma stages_word:
  "tk \<noteq> ''|'' \<Longrightarrow> tk \<noteq> ''<'' \<Longrightarrow> tk \<noteq> ''>'' \<Longrightarrow> tk \<noteq> ''>>'' \<Longrightarrow> tk \<noteq> ''&'' \<Longrightarrow>
     stages_of cur (tk # rest) = stages_of (cur\<lparr>argv := argv cur @ [tk]\<rparr>) rest"
  by (simp add: stages_of_def extend_parts segments_nonempty stage_on_item)

lemma kept_one:
  "kept [c] = (if argv c \<noteq> [] \<or> infile c \<noteq> [] \<or> outfile c \<noteq> [] then [c] else [])"
  by (simp add: kept_def)

lemma kept_cons:
  "ys \<noteq> [] \<Longrightarrow> kept (c # ys) = (if argv c \<noteq> [] then [c] else []) @ kept ys"
  by (simp add: kept_def)

lemma parse_loop_kept:
  "fst (parse_loop toks cur pl bg) = pl @ kept (stages_of cur toks)"
proof (induction toks cur pl bg rule: parse_loop.induct)
  case (1 cur pipeline background)
  show ?case by (simp add: stages_nil kept_one)
next
  case (2 tk rest cur pipeline background)
  consider (pipe) "tk = ''|''" | (inp) "tk = ''<''" | (out) "tk = ''>''" | (app) "tk = ''>>''"
    | (amp) "tk = ''&''"
    | (word) "tk \<noteq> ''|''" "tk \<noteq> ''<''" "tk \<noteq> ''>''" "tk \<noteq> ''>>''" "tk \<noteq> ''&''"
    by blast
  then show ?case
  proof cases
    case pipe
    from "2.IH"(1) [OF pipe] show ?thesis
      by (simp only: pipe parse_loop_pipe stages_pipe kept_cons [OF stages_of_nonempty]) simp
  next
    case inp
    show ?thesis
    proof (cases rest)
      case Nil
      from "2.IH"(2) [OF _ inp Nil] show ?thesis
        by (simp only: inp Nil parse_loop_in stages_in stages_nil) simp
    next
      case (Cons f rest')
      from "2.IH"(3) [OF _ inp Cons] show ?thesis
        by (simp only: inp Cons parse_loop_in stages_in) simp
    qed
  next
    case out
    show ?thesis
    proof (cases rest)
      case Nil
      from "2.IH"(4) [OF _ _ _ Nil] out Nil show ?thesis
        by (simp del: parse_loop.simps add: parse_loop_out stages_out stages_nil)
    next
      case (Cons f rest')
      from "2.IH"(5) [OF _ _ _ Cons] out Cons show ?thesis
        by (simp del: parse_loop.simps add: parse_loop_out stages_out)
    qed
  next
    case app
    show ?thesis
    proof (cases rest)
      case Nil
      from "2.IH"(4) [OF _ _ _ Nil] app Nil show ?thesis
        by (simp del: parse_loop.simps add: parse_loop_out stages_out stages_nil)
    next
      case (Cons f rest')
      from "2.IH"(5) [OF _ _ _ Cons] app Cons show ?thesis
        by (simp del: parse_loop.simps add: parse_loop_out stages_out)
    qed
  next
    case amp
    from "2.IH"(6) [OF _ _ _ amp] show ?thesis
      by (simp del: parse_loop.simps add: amp parse_loop_amp stages_amp)
  next
    case word
    from "2.IH"(7) [OF word(1,2) _ word(5)] word show ?thesis
      by (simp del: parse_loop.simps add: parse_loop_word stages_word)
  qed
qed

lemma kept_empty_last:
  "k < length (kept stages) \<Longrightarrow> argv (kept stages ! k) = [] \<Longrightarrow>
     length (kept stages) = Suc k
     \<and> (infile (kept stages ! k) \<noteq> [] \<or> outfile (kept stages ! k) \<noteq> [])"
proof -
  assume k: "k < length (kept stages)" and e: "argv (kept stages ! k) = []"
  define xs where "xs = filter (\<lambda>c. argv c \<noteq> []) (butlast stages)"
  define ys where "ys = filter (\<lambda>c. argv c \<noteq> [] \<or> infile c \<noteq> [] \<or> outfile c \<noteq> []) [last stages]"
  have split: "kept stages = xs @ ys"
    by (simp add: kept_def xs_def ys_def)
  have named: "\<forall>c \<in> set xs. argv c \<noteq> []"
    by (simp add: xs_def)
  have short: "length ys \<le> 1"
    by (simp add: ys_def)
  have redirected: "\<forall>c \<in> set ys. argv c \<noteq> [] \<or> infile c \<noteq> [] \<or> outfile c \<noteq> []"
    by (simp add: ys_def)
  have "\<not> k < length xs"
  proof
    assume "k < length xs"
    then have "(xs @ ys) ! k \<in> set xs" by (simp add: nth_append)
    with named e split show False by simp
  qed
  then have at: "length xs \<le> k" by simp
  with k split short have len: "length (xs @ ys) = Suc k" by simp
  from at k split have "(xs @ ys) ! k \<in> set ys"
    by (simp add: nth_append)
  with redirected e split have "infile ((xs @ ys) ! k) \<noteq> [] \<or> outfile ((xs @ ys) ! k) \<noteq> []"
    by auto
  with len split show ?thesis by simp
qed

lemma kept_last:
  "stages \<noteq> [] \<Longrightarrow> argv (last stages) \<noteq> [] \<or> infile (last stages) \<noteq> [] \<or> outfile (last stages) \<noteq> []
     \<Longrightarrow> kept stages \<noteq> [] \<and> last (kept stages) = last stages"
  by (simp add: kept_def)

text \<open>
  C10 as stated fails, in its part that the redirection of a retained empty stage is
  performed when the stage is launched: the line \<^verbatim>\<open>ls | < f\<close> parses to two stages, the
  second with no program name and the input redirection \<^verbatim>\<open>f\<close>; launched as stage 1, it
  opens no file and exits with status 0.
\<close>

theorem trailing_input_redirection_counterexample:
  "fst (parse_pipeline (split_tokens ''ls | < f''))
     = [cmd0 [''ls''] [] [] False, cmd0 [] ''f'' [] False]
   \<and> filter is_open (new_events (world0 [])
        (snd (child_stage os0 (fst (parse_pipeline (split_tokens ''ls | < f''))) 1 False 200 [3, 4]
           (world0 [])))) = []
   \<and> fst (child_stage os0 (fst (parse_pipeline (split_tokens ''ls | < f''))) 1 False 200 [3, 4]
           (world0 [])) = Exit 0"
  by code_simp

text \<open>
  C10 as amended. For every token list \<^verbatim>\<open>parse_pipeline\<close> returns exactly the stages of
  the segments between pipe tokens that \<open>kept\<close> keeps: a segment that a pipe token ends
  is kept if and only if it has a word, so it is dropped when it has none, with or
  without a redirection; the last segment is kept if and only if it has a word or a
  non-empty input or output file. So a trailing stage with no program name and such a
  redirection is retained as the last stage, and a stage with no program name in a parsed
  pipeline is always the last one and has a redirection. When a last stage \<open>i\<close> with no
  program name is launched, the child calls no \<^verbatim>\<open>execvp\<close>; it opens the input file only
  if the stage is also the first one; it opens the output file (write-only, create,
  append or truncate by the append flag) only if that \<^verbatim>\<open>open\<close> of the input file did not
  fail; and it exits with status 1 when an \<^verbatim>\<open>open\<close> it made failed, with status 0
  otherwise.
\<close>

theorem parse_keeps_trailing_redirect:
  "fst (parse_pipeline toks) = kept (map stage_of (segments toks))
   \<and> (infile (stage_of (last (segments toks))) \<noteq> [] \<or> outfile (stage_of (last (segments toks))) \<noteq> []
        \<longrightarrow> fst (parse_pipeline toks) \<noteq> []
            \<and> last (fst (parse_pipeline toks)) = stage_of (last (segments toks)))
   \<and> (\<forall>k < length (fst (parse_pipeline toks)).
         argv (fst (parse_pipeline toks) ! k) = [] \<longrightarrow>
           length (fst (parse_pipeline toks)) = Suc k
           \<and> (infile (fst (parse_pipeline toks) ! k) \<noteq> []
               \<or> outfile (fst (parse_pipeline toks) ! k) \<noteq> []))
   \<and> (length pl = Suc i \<and> argv (pl ! i) = [] \<longrightarrow>
        filter is_open (new_events w (snd (child_stage o_s pl i bg pg0 fds w)))
          = (if i = 0 \<and> infile (pl ! i) \<noteq> [] then [Open (infile (pl ! i)) {O_RDONLY}] else [])
            @ (if outfile (pl ! i) \<noteq> []
                  \<and> \<not> ((i = 0 \<and> infile (pl ! i) \<noteq> [])
                         \<and> open_ret o_s (infile (pl ! i)) {O_RDONLY} < 0)
               then [Open (outfile (pl ! i))
                       {O_WRONLY, O_CREAT, if append_flag (pl ! i) then O_APPEND else O_TRUNC}]
               else [])
        \<and> filter is_execvp (new_events w (snd (child_stage o_s pl i bg pg0 fds w))) = []
        \<and> fst (child_stage o_s pl i bg pg0 fds w)
            = (if ((i = 0 \<and> infile (pl ! i) \<noteq> []) \<and> open_ret o_s (infile (pl ! i)) {O_RDONLY} < 0)
                  \<or> (outfile (pl ! i) \<noteq> []
                      \<and> open_ret o_s (outfile (pl ! i))
                           {O_WRONLY, O_CREAT, if append_flag (pl ! i) then O_APPEND else O_TRUNC} < 0)
               then Exit 1 else Exit 0))"
proof -
  have parsed: "fst (parse_pipeline toks) = kept (map stage_of (segments toks))"
    by (simp add: parse_pipeline_def parse_loop_kept stages_of_all)
  have last_seg: "last (map stage_of (segments toks)) = stage_of (last (segments toks))"
    using segments_nonempty [of toks] by (simp add: last_map)
  have retained: "infile (stage_of (last (segments toks))) \<noteq> []
        \<or> outfile (stage_of (last (segments toks))) \<noteq> []
        \<longrightarrow> fst (parse_pipeline toks) \<noteq> []
            \<and> last (fst (parse_pipeline toks)) = stage_of (last (segments toks))"
    using kept_last [of "map stage_of (segments toks)"] segments_nonempty [of toks]
    unfolding parsed last_seg by auto
  have nameless: "\<forall>k < length (fst (parse_pipeline toks)).
         argv (fst (parse_pipeline toks) ! k) = [] \<longrightarrow>
           length (fst (parse_pipeline toks)) = Suc k
           \<and> (infile (fst (parse_pipeline toks) ! k) \<noteq> []
               \<or> outfile (fst (parse_pipeline toks) ! k) \<noteq> [])"
    unfolding parsed using kept_empty_last by blast
  have launch: "length pl = Suc i \<and> argv (pl ! i) = [] \<longrightarrow>
        filter is_open (new_events w (snd (child_stage o_s pl i bg pg0 fds w)))
          = (if i = 0 \<and> infile (pl ! i) \<noteq> [] then [Open (infile (pl ! i)) {O_RDONLY}] else [])
            @ (if outfile (pl ! i) \<noteq> []
                  \<and> \<not> ((i = 0 \<and> infile (pl ! i) \<noteq> [])
                         \<and> open_ret o_s (infile (pl ! i)) {O_RDONLY} < 0)
               then [Open (outfile (pl ! i))
                       {O_WRONLY, O_CREAT, if append_flag (pl ! i) then O_APPEND else O_TRUNC}]
               else [])
        \<and> filter is_execvp (new_events w (snd (child_stage o_s pl i bg pg0 fds w))) = []
        \<and> fst (child_stage o_s pl i bg pg0 fds w)
            = (if ((i = 0 \<and> infile (pl ! i) \<noteq> []) \<and> open_ret o_s (infile (pl ! i)) {O_RDONLY} < 0)
                  \<or> (outfile (pl ! i) \<noteq> []
                      \<and> open_ret o_s (outfile (pl ! i))
                           {O_WRONLY, O_CREAT, if append_flag (pl ! i) then O_APPEND else O_TRUNC} < 0)
               then Exit 1 else Exit 0)"
  proof
    assume last_stage: "length pl = Suc i \<and> argv (pl ! i) = []"
    then have len: "length pl = Suc i" and nameless: "argv (pl ! i) = []"
      by simp_all
    have out: "output_redirected pl i \<longleftrightarrow> outfile (pl ! i) \<noteq> []"
      using len by (simp add: output_redirected_def)
    obtain evs where evs: "trace (snd (child_stage o_s pl i bg pg0 fds w)) = trace w @ evs"
        "filter is_open evs =
           (if input_redirected pl i then [Open (infile (pl ! i)) {O_RDONLY}] else [])
           @ (if output_redirected pl i \<and> \<not> in_fails o_s pl i
              then [Open (outfile (pl ! i)) (out_flags (pl ! i))] else [])"
        "filter is_execvp evs = []"
      using child_stage_trace [of o_s pl i bg pg0 fds w] nameless by blast
    have new: "new_events w (snd (child_stage o_s pl i bg pg0 fds w)) = evs"
      using evs(1) by (simp add: new_events_def)
    have opens: "filter is_open (new_events w (snd (child_stage o_s pl i bg pg0 fds w))) =
           (if input_redirected pl i then [Open (infile (pl ! i)) {O_RDONLY}] else [])
           @ (if output_redirected pl i \<and> \<not> in_fails o_s pl i
              then [Open (outfile (pl ! i)) (out_flags (pl ! i))] else [])"
      using evs(2) new by simp
    have no_execvp: "filter is_execvp (new_events w (snd (child_stage o_s pl i bg pg0 fds w))) = []"
      using evs(3) new by simp
    have exits: "fst (child_stage o_s pl i bg pg0 fds w)
        = (if in_fails o_s pl i \<or> out_fails o_s pl i then Exit 1 else Exit 0)"
      using nameless by (simp add: child_stage_cases child_exec_def)
    from opens no_execvp exits show "filter is_open (new_events w (snd (child_stage o_s pl i bg pg0 fds w)))
          = (if i = 0 \<and> infile (pl ! i) \<noteq> [] then [Open (infile (pl ! i)) {O_RDONLY}] else [])
            @ (if outfile (pl ! i) \<noteq> []
                  \<and> \<not> ((i = 0 \<and> infile (pl ! i) \<noteq> [])
                         \<and> open_ret o_s (infile (pl ! i)) {O_RDONLY} < 0)
               then [Open (outfile (pl ! i))
                       {O_WRONLY, O_CREAT, if append_flag (pl ! i) then O_APPEND else O_TRUNC}]
               else [])
        \<and> filter is_execvp (new_events w (snd (child_stage o_s pl i bg pg0 fds w))) = []
        \<and> fst (child_stage o_s pl i bg pg0 fds w)
            = (if ((i = 0 \<and> infile (pl ! i) \<noteq> []) \<and> open_ret o_s (infile (pl ! i)) {O_RDONLY} < 0)
                  \<or> (outfile (pl ! i) \<noteq> []
                      \<and> open_ret o_s (outfile (pl ! i))
                           {O_WRONLY, O_CREAT, if append_flag (pl ! i) then O_APPEND else O_TRUNC} < 0)
               then Exit 1 else Exit 0)"
      unfolding in_fails_def out_fails_def out input_redirected_def out_flags_def
      by (intro conjI)
  qed
  from parsed retained nameless launch show ?thesis
    by (intro conjI)
qed

theorem parse_keeps_trailing_redirect_witness:
  "fst (parse_pipeline (split_tokens ''ls | > f''))
     = [cmd0 [''ls''] [] [] False, cmd0 [] [] ''f'' False]
   \<and> outfile (stage_of (last (segments (split_tokens ''ls | > f'')))) = ''f''
   \<and> last (fst (parse_pipeline (split_tokens ''ls | > f'')))
       = stage_of (last (segments (split_tokens ''ls | > f'')))
   \<and> argv (fst (parse_pipeline (split_tokens ''ls | > f'')) ! 1) = []
   \<and> length (fst (parse_pipeline (split_tokens ''ls | > f''))) = Suc 1
   \<and> filter is_execvp (new_events (world0 [])
        (snd (child_stage os0 (fst (parse_pipeline (split_tokens ''ls | > f''))) 1 False 200 [3, 4]
           (world0 [])))) = []
   \<and> filter is_open (new_events (world0 [])
        (snd (child_stage os0 (fst (parse_pipeline (split_tokens ''ls | > f''))) 1 False 200 [3, 4]
           (world0 [])))) = [Open ''f'' {O_WRONLY, O_CREAT, O_TRUNC}]
   \<and> fst (child_stage os0 (fst (parse_pipeline (split_tokens ''ls | > f''))) 1 False 200 [3, 4]
           (world0 [])) = Exit 0
   \<and> fst (parse_pipeline (split_tokens ''< missing > out'')) = [cmd0 [] ''missing'' ''out'' False]
   \<and> filter is_open (new_events (world0 [])
        (snd (child_stage os_nofile [cmd0 [] ''missing'' ''out'' False] 0 False 0 [] (world0 []))))
       = [Open ''missing'' {O_RDONLY}]
   \<and> fst (child_stage os_nofile [cmd0 [] ''missing'' ''out'' False] 0 False 0 [] (world0 []))
       = Exit 1"
proof -
  let ?toks = "split_tokens ''ls | > f''"
  let ?pl = "fst (parse_pipeline ?toks)"
  have parsed: "?pl = [cmd0 [''ls''] [] [] False, cmd0 [] [] ''f'' False]"
    by code_simp
  have out_file: "outfile (stage_of (last (segments ?toks))) = ''f''"
    by code_simp
  have at: "1 < length ?pl" and nameless: "argv (?pl ! 1) = []"
    by code_simp+
  have len: "length ?pl = Suc 1"
    by code_simp
  have opened: "filter is_open (new_events (world0 [])
        (snd (child_stage os0 ?pl 1 False 200 [3, 4] (world0 []))))
      = [Open ''f'' {O_WRONLY, O_CREAT, O_TRUNC}]"
    and zero: "fst (child_stage os0 ?pl 1 False 200 [3, 4] (world0 [])) = Exit 0"
    by code_simp+
  have parsed2: "fst (parse_pipeline (split_tokens ''< missing > out''))
      = [cmd0 [] ''missing'' ''out'' False]"
    by code_simp
  have opened2: "filter is_open (new_events (world0 [])
        (snd (child_stage os_nofile [cmd0 [] ''missing'' ''out'' False] 0 False 0 [] (world0 []))))
       = [Open ''missing'' {O_RDONLY}]"
    and one: "fst (child_stage os_nofile [cmd0 [] ''missing'' ''out'' False] 0 False 0 [] (world0 []))
       = Exit 1"
    by code_simp+
  note t = parse_keeps_trailing_redirect [where toks = ?toks and pl = ?pl and i = 1
      and w = "world0 []" and o_s = os0 and bg = False and ?pg0.0 = 200 and fds = "[3, 4]"]
  have retained: "last ?pl = stage_of (last (segments ?toks))"
    using t [THEN conjunct2, THEN conjunct1] out_file by simp
  have no_exec: "filter is_execvp (new_events (world0 [])
        (snd (child_stage os0 ?pl 1 False 200 [3, 4] (world0 [])))) = []"
    using t [THEN conjunct2, THEN conjunct2, THEN conjunct2] len nameless by blast
  from parsed out_file retained nameless len no_exec opened zero parsed2 opened2 one show ?thesis
    by (intro conjI)
qed

section \<open>The terminal around a foreground wait (C2)\<close>

lemma handoff_before_append:
  "\<forall>e \<in> set pre. \<not> is_wait e \<and> \<not> is_tcsetpgrp e \<Longrightarrow>
     handoff sh g Before (pre @ es) = handoff sh g Before es"
  by (induction pre) auto

lemma handoff_waiting_replicate:
  "handoff sh g Waiting (replicate k (WaitPid (- g) {WUNTRACED}) @ es) = handoff sh g Waiting es"
  by (induction k) auto

lemma handoff_reclaimed:
  "handoff sh g Reclaimed es \<longleftrightarrow> (\<forall>e \<in> set es. \<not> is_wait e \<and> \<not> is_tcsetpgrp e)"
  by (induction es) auto

lemma handoff_run:
  assumes "\<forall>e \<in> set pre. \<not> is_wait e \<and> \<not> is_tcsetpgrp e"
    and "\<forall>e \<in> set post. \<not> is_wait e \<and> \<not> is_tcsetpgrp e"
  shows "handoff sh g Before
           (pre @ [TcSetPgrp g] @ replicate (Suc k) (WaitPid (- g) {WUNTRACED}) @ [TcSetPgrp sh] @ post)"
proof -
  have "handoff sh g Waiting (replicate k (WaitPid (- g) {WUNTRACED}) @ [TcSetPgrp sh] @ post)"
    using assms(2) by (simp only: handoff_waiting_replicate) (simp add: handoff_reclaimed)
  then show ?thesis
    using assms(1) by (simp add: handoff_before_append)
qed

lemma wait_loop_count: "\<exists>n. snd (wait_loop rs st k) = Suc n"
  by (induction rs st k rule: wait_loop.induct) (auto simp: Let_def)

lemma make_pipes_plain:
  "\<forall>e \<in> set (fst (make_pipes k rs)). \<not> is_wait e \<and> \<not> is_tcsetpgrp e"
  by (induction k rs rule: make_pipes.induct) (auto split: prod.splits option.splits)

lemma fork_loop_parent:
  "fork_loop o_s pl bg fds todo frs pg w = (Forked pg', w') \<Longrightarrow>
     \<exists>evs. trace w' = trace w @ evs \<and> (\<forall>e \<in> set evs. \<not> is_wait e \<and> \<not> is_tcsetpgrp e)
       \<and> jobs w' = jobs w \<and> next_job_id w' = next_job_id w \<and> shell_pgid w' = shell_pgid w"
proof (induction todo arbitrary: frs pg w)
  case Nil
  then show ?case by simp
next
  case (Cons i todo)
  define pid where "pid = (case frs of [] \<Rightarrow> - 1 | p # _ \<Rightarrow> p)"
  have pos: "\<not> pid < 0" "pid \<noteq> 0"
    using Cons.prems by (auto simp: pid_def Let_def split: if_splits prod.splits)
  define w1 where "w1 = emit [SetPgid pid (if pg = 0 then pid else pg)] (emit [Fork] w)"
  have step: "fork_loop o_s pl bg fds todo (tl frs) (if pg = 0 then pid else pg) w1 = (Forked pg', w')"
    using Cons.prems pos by (cases "pg = 0") (simp_all add: pid_def Let_def w1_def)
  from Cons.IH [OF step] obtain evs where evs: "trace w' = trace w1 @ evs"
      "\<forall>e \<in> set evs. \<not> is_wait e \<and> \<not> is_tcsetpgrp e"
      "jobs w' = jobs w1" "next_job_id w' = next_job_id w1" "shell_pgid w' = shell_pgid w1"
    by blast
  have "trace w' = trace w @ ([Fork, SetPgid pid (if pg = 0 then pid else pg)] @ evs)"
    using evs(1) by (simp add: w1_def emit_def)
  moreover have "\<forall>e \<in> set ([Fork, SetPgid pid (if pg = 0 then pid else pg)] @ evs).
      \<not> is_wait e \<and> \<not> is_tcsetpgrp e"
    using evs(2) by simp
  moreover have "jobs w' = jobs w" "next_job_id w' = next_job_id w" "shell_pgid w' = shell_pgid w"
    using evs(3-5) by (simp_all add: w1_def emit_def)
  ultimately show ?case by blast
qed

lemma close_all_plain: "\<forall>e \<in> set (close_all fds). \<not> is_wait e \<and> \<not> is_tcsetpgrp e"
  by (auto simp: close_all_def)

lemma launch_foreground_trace:
  assumes pipes: "make_pipes (length pl - 1) (pipe_rets o_s) = (pevs, Some fds)"
    and forks: "fork_loop o_s pl False fds [0..<length pl] (fork_rets o_s) 0 (emit pevs w)
                  = (Forked pg, w1)"
  shows "fst (launch_pipeline o_s pl False cmd w) = Return ()
     \<and> handoff (shell_pgid w) pg Before (new_events w (snd (launch_pipeline o_s pl False cmd w)))"
proof -
  obtain evs where evs: "trace w1 = trace (emit pevs w) @ evs"
      "\<forall>e \<in> set evs. \<not> is_wait e \<and> \<not> is_tcsetpgrp e" "shell_pgid w1 = shell_pgid (emit pevs w)"
    using fork_loop_parent [OF forks] by blast
  obtain st n where wl: "wait_loop (wait_rets o_s) (garbage o_s) 0 = (st, Suc n)"
    using wait_loop_count [of "wait_rets o_s" "garbage o_s" 0]
    by (cases "wait_loop (wait_rets o_s) (garbage o_s) 0") auto
  define post where "post =
     (if WIFSTOPPED st
      then [Stderr [S (CHR 0x0A # ''[''), I (next_job_id w1), S (''] Stopped'' @ [CHR 0x09]), S cmd,
                    S [CHR 0x0A]]]
      else [])"
  define pre where "pre = pevs @ evs @ close_all fds"
  have pevs_plain: "\<forall>e \<in> set pevs. \<not> is_wait e \<and> \<not> is_tcsetpgrp e"
    using make_pipes_plain [of "length pl - 1" "pipe_rets o_s"] pipes by simp
  have pre_plain: "\<forall>e \<in> set pre. \<not> is_wait e \<and> \<not> is_tcsetpgrp e"
    using pevs_plain evs(2) close_all_plain by (auto simp: pre_def)
  have post_plain: "\<forall>e \<in> set post. \<not> is_wait e \<and> \<not> is_tcsetpgrp e"
    by (simp add: post_def)
  have run: "fst (launch_pipeline o_s pl False cmd w) = Return ()
      \<and> trace (snd (launch_pipeline o_s pl False cmd w))
          = trace w @ (pre @ [TcSetPgrp pg] @ replicate (Suc n) (WaitPid (- pg) {WUNTRACED})
                         @ [TcSetPgrp (shell_pgid w)] @ post)"
    using evs(1,3)
    by (simp only: launch_pipeline_def pipes forks prod.case option.case fork_end.case)
       (simp add: add_job_def foreground_wait_def wl post_wait_def emit_def pre_def post_def)
  then have "new_events w (snd (launch_pipeline o_s pl False cmd w))
      = pre @ [TcSetPgrp pg] @ replicate (Suc n) (WaitPid (- pg) {WUNTRACED})
          @ [TcSetPgrp (shell_pgid w)] @ post"
    by (simp add: new_events_def)
  then show ?thesis
    using run handoff_run [OF pre_plain post_plain] by simp
qed

lemma fg_trace:
  assumes "job_arg (''fg'' # args) = Inr n" and "resolve_job n (jobs w) = Some k"
  shows "handoff (shell_pgid w) (pgid (jobs w ! k)) Before
           (new_events w (snd (run_builtin o_s (''fg'' # args) w)))"
proof -
  define pre where "pre = [Kill (- pgid (jobs w ! k)) SIGCONT]
      @ (if kill_ret o_s < 0 then [Perror ''kill(SIGCONT)''] else [])"
  have pre_plain: "\<forall>e \<in> set pre. \<not> is_wait e \<and> \<not> is_tcsetpgrp e"
    by (simp add: pre_def)
  have "new_events w (snd (run_builtin o_s (''fg'' # args) w))
      = pre @ [TcSetPgrp (pgid (jobs w ! k))]
          @ replicate (Suc 0) (WaitPid (- pgid (jobs w ! k)) {WUNTRACED})
          @ [TcSetPgrp (shell_pgid w)] @ []"
    using assms by (simp add: run_builtin_def fg_job_def emit_def Let_def new_events_def pre_def)
  then show ?thesis
    using handoff_run [OF pre_plain, of "[]" "shell_pgid w" "pgid (jobs w ! k)" 0] by simp
qed

text \<open>
  C2. When \<^verbatim>\<open>launch_pipeline\<close> launches a foreground pipeline (the pipes were made and
  every \<^verbatim>\<open>fork\<close> returned a child's pid to the shell), the shell calls \<^verbatim>\<open>tcsetpgrp\<close> with
  the job's group before its first \<^verbatim>\<open>waitpid\<close>, makes no call between its \<^verbatim>\<open>waitpid\<close>
  calls, calls \<^verbatim>\<open>tcsetpgrp\<close> with its own group right after the last of them, before
  anything that depends on the status, and makes neither call again; this holds whatever
  the \<^verbatim>\<open>waitpid\<close> calls answer (exit, signal, stop, or failure). The same holds for the
  \<^verbatim>\<open>fg\<close> built-in whenever its job argument resolves to a job.
\<close>

theorem terminal_handoff_order:
  "(make_pipes (length pl - 1) (pipe_rets o_s) = (pevs, Some fds)
      \<and> fst (fork_loop o_s pl False fds [0..<length pl] (fork_rets o_s) 0 (emit pevs w)) = Forked pg
    \<longrightarrow> fst (launch_pipeline o_s pl False cmd w) = Return ()
        \<and> handoff (shell_pgid w) pg Before
             (new_events w (snd (launch_pipeline o_s pl False cmd w))))
   \<and> (job_arg (''fg'' # args) = Inr n \<and> resolve_job n (jobs w) = Some k
    \<longrightarrow> handoff (shell_pgid w) (pgid (jobs w ! k)) Before
          (new_events w (snd (run_builtin o_s (''fg'' # args) w))))"
proof (intro conjI impI)
  assume h: "make_pipes (length pl - 1) (pipe_rets o_s) = (pevs, Some fds)
      \<and> fst (fork_loop o_s pl False fds [0..<length pl] (fork_rets o_s) 0 (emit pevs w)) = Forked pg"
  then have pipes: "make_pipes (length pl - 1) (pipe_rets o_s) = (pevs, Some fds)"
    and forks: "fork_loop o_s pl False fds [0..<length pl] (fork_rets o_s) 0 (emit pevs w)
        = (Forked pg, snd (fork_loop o_s pl False fds [0..<length pl] (fork_rets o_s) 0 (emit pevs w)))"
    by (simp_all add: prod_eq_iff)
  from launch_foreground_trace [OF pipes forks]
  show "fst (launch_pipeline o_s pl False cmd w) = Return ()"
    and "handoff (shell_pgid w) pg Before (new_events w (snd (launch_pipeline o_s pl False cmd w)))"
    by simp_all
next
  assume "job_arg (''fg'' # args) = Inr n \<and> resolve_job n (jobs w) = Some k"
  then show "handoff (shell_pgid w) (pgid (jobs w ! k)) Before
          (new_events w (snd (run_builtin o_s (''fg'' # args) w)))"
    using fg_trace by blast
qed

theorem terminal_handoff_order_witness:
  "make_pipes (length [cmd0 [''cat''] [] [] False] - 1) (pipe_rets os_stop) = ([], Some [])
   \<and> fst (fork_loop os_stop [cmd0 [''cat''] [] [] False] False [] [0..<length [cmd0 [''cat''] [] [] False]]
            (fork_rets os_stop) 0 (emit [] (world0 []))) = Forked 200
   \<and> handoff 50 200 Before
        (new_events (world0 []) (snd (launch_pipeline os_stop [cmd0 [''cat''] [] [] False] False ''cat'' (world0 []))))
   \<and> job_arg (''fg'' # [''%1'']) = Inr 1
   \<and> resolve_job 1 (jobs (world0 [job0 1 200 Stopped])) = Some 0
   \<and> handoff 50 200 Before
        (new_events (world0 [job0 1 200 Stopped])
           (snd (run_builtin os_stop (''fg'' # [''%1'']) (world0 [job0 1 200 Stopped]))))"
proof -
  have pipes: "make_pipes (length [cmd0 [''cat''] [] [] False] - 1) (pipe_rets os_stop) = ([], Some [])"
    by code_simp
  have forks: "fst (fork_loop os_stop [cmd0 [''cat''] [] [] False] False []
            [0..<length [cmd0 [''cat''] [] [] False]] (fork_rets os_stop) 0 (emit [] (world0 [])))
        = Forked 200"
    by code_simp
  have arg: "job_arg (''fg'' # [''%1'']) = Inr 1"
    by code_simp
  have job: "resolve_job 1 (jobs (world0 [job0 1 200 Stopped])) = Some 0"
    by code_simp
  have sh: "shell_pgid (world0 []) = 50" "shell_pgid (world0 [job0 1 200 Stopped]) = 50"
    "pgid (jobs (world0 [job0 1 200 Stopped]) ! 0) = 200"
    by (simp_all add: world0_def job0_def)
  from terminal_handoff_order [where pl = "[cmd0 [''cat''] [] [] False]" and o_s = os_stop
      and pevs = "[]" and fds = "[]" and w = "world0 []" and pg = 200 and cmd = "''cat''"]
    terminal_handoff_order [where o_s = os_stop and w = "world0 [job0 1 200 Stopped]"
      and args = "[''%1'']" and n = 1 and k = 0]
    pipes forks arg job
  show ?thesis by (simp add: sh)
qed

section \<open>Job tables the shell reaches\<close>












lemma run_builtin_jobs:
  "jobs (snd (run_builtin o_s av w))
     \<in> {jobs w, remove_completed_jobs (jobs w)}
        \<union> range (\<lambda>k. jobs (fg_job o_s k w)) \<union> range (\<lambda>k. jobs (bg_job o_s k w))"
  by (simp add: run_builtin_def emit_def split: list.split sum.split option.split)



lemma find_first_bound: "find_first P js = Some k \<Longrightarrow> k < length js"
  by (induction js arbitrary: k) (auto split: if_splits option.splits)

lemma resolve_job_bound: "resolve_job n js = Some k \<Longrightarrow> k < length js"
  by (auto simp: resolve_job_def find_last_job_def find_job_by_id_def find_first_bound
      split: if_splits)
lemma fork_loop_in_shell:
  "0 \<notin> set frs \<Longrightarrow> fst (fork_loop o_s pl bg fds todo frs pg w) \<noteq> InChild out"
proof (induction todo arbitrary: frs pg w)
  case Nil
  show ?case by simp
next
  case (Cons i todo)
  show ?case
  proof (cases frs)
    case Nil
    then show ?thesis by (simp add: Let_def)
  next
    case (Cons p frs')
    with Cons.prems have "p \<noteq> 0" "0 \<notin> set frs'" by auto
    then show ?thesis
      using Cons.IH [of frs'] Cons by (simp add: Let_def)
  qed
qed

lemma live_table_iff: "live_table js \<longleftrightarrow> (\<forall>j \<in> set js. status j = Running \<or> status j = Stopped)"
  by (simp add: live_table_def list_all_iff)


lemma rewritten_statuses:
  assumes "live_table js" and "rewritten js js'"
  shows "\<forall>j \<in> set js'. status j = Running \<or> status j = Stopped \<or> status j = Done"
proof
  fix j assume "j \<in> set js'"
  then obtain k where k: "k < length js'" "js' ! k = j"
    by (auto simp: in_set_conv_nth)
  with assms(2) have kk: "k < length js" by (simp add: rewritten_def)
  with assms(1) have "status (js ! k) = Running \<or> status (js ! k) = Stopped"
    by (simp add: live_table_iff)
  moreover from assms(2) kk have "status (js' ! k) = status (js ! k) \<or> status (js' ! k) = Running
      \<or> status (js' ! k) = Stopped \<or> status (js' ! k) = Done"
    by (simp add: rewritten_def)
  ultimately show "status j = Running \<or> status j = Stopped \<or> status j = Done"
    using k(2) by auto
qed

lemma live_after_prune:
  assumes "live_table js" and "rewritten js mid"
  shows "live_table (remove_completed_jobs mid)"
  using rewritten_statuses [OF assms]
  by (auto simp: live_table_iff remove_completed_jobs_def)


lemma live_rewritten_no_done:
  assumes "live_table js" and "rewritten js js'" and "\<forall>j \<in> set js'. status j \<noteq> Done"
  shows "live_table js'"
  using rewritten_statuses [OF assms(1,2)] assms(3) by (auto simp: live_table_iff)

lemma live_tri: "live_table js \<Longrightarrow> tri js"
  by (auto simp: live_table_iff tri_def)

lemma tri_prune_live: "tri js \<Longrightarrow> live_table (remove_completed_jobs js)"
  by (auto simp: live_table_iff tri_def remove_completed_jobs_def)

lemma tri_prune: "tri js \<Longrightarrow> tri (remove_completed_jobs js)"
  by (auto simp: tri_def remove_completed_jobs_def)

lemma tri_mark: "tri js \<Longrightarrow> tri (mark_job_as_done pg js) \<and> tri (mark_job_as_stopped pg js)"
  by (auto simp: tri_def mark_job_as_done_def mark_job_as_stopped_def)

lemma tri_update:
  assumes "tri js" and "status j = Running \<or> status j = Stopped \<or> status j = Done"
  shows "tri (js[k := j])"
  using assms set_update_subset_insert [of js k j] by (auto simp: tri_def)

lemma tri_fg_bg: "tri (jobs w) \<Longrightarrow> tri (jobs (fg_job o_s k w)) \<and> tri (jobs (bg_job o_s k w))"
  by (simp add: fg_job_def bg_job_def Let_def emit_def tri_prune tri_update)

lemma tri_run_builtin:
  assumes "tri (jobs w)"
  shows "tri (jobs (snd (run_builtin o_s av w)))"
proof -
  consider (same) "jobs (snd (run_builtin o_s av w)) = jobs w"
    | (pruned) "jobs (snd (run_builtin o_s av w)) = remove_completed_jobs (jobs w)"
    | (fg) k where "jobs (snd (run_builtin o_s av w)) = jobs (fg_job o_s k w)"
    | (bg) k where "jobs (snd (run_builtin o_s av w)) = jobs (bg_job o_s k w)"
    using run_builtin_jobs [of o_s av w] by blast
  then show ?thesis
    using assms tri_fg_bg [OF assms] by cases (simp_all add: tri_prune)
qed

lemma tri_post_wait: "tri (jobs w) \<Longrightarrow> tri (jobs (post_wait st pg jid cmd w))"
  by (simp add: post_wait_def emit_def tri_mark tri_prune)

lemma fork_loop_jobs:
  "0 \<notin> set frs \<Longrightarrow> jobs (snd (fork_loop o_s pl bg fds todo frs pg w)) = jobs w"
proof (induction todo arbitrary: frs pg w)
  case Nil
  show ?case by simp
next
  case (Cons i todo)
  show ?case
  proof (cases frs)
    case Nil
    then show ?thesis by (simp add: Let_def emit_def)
  next
    case (Cons p frs')
    with Cons.prems have "p \<noteq> 0" "0 \<notin> set frs'" by auto
    then show ?thesis
      using Cons.IH [of frs'] Cons by (simp add: Let_def emit_def)
  qed
qed

lemma tri_launch:
  assumes "tri (jobs w)" and "0 \<notin> set (fork_rets o_s)"
  shows "tri (jobs (snd (launch_pipeline o_s pl bg cmd w)))"
proof (cases "make_pipes (length pl - 1) (pipe_rets o_s)")
  case (Pair pevs fdo)
  show ?thesis
  proof (cases fdo)
    case None
    then show ?thesis
      using assms(1) Pair by (simp add: launch_pipeline_def emit_def)
  next
    case (Some fds)
    obtain e w1 where fl: "fork_loop o_s pl bg fds [0..<length pl] (fork_rets o_s) 0 (emit pevs w) = (e, w1)"
      by (cases "fork_loop o_s pl bg fds [0..<length pl] (fork_rets o_s) 0 (emit pevs w)")
    have j1: "jobs w1 = jobs w"
      using fork_loop_jobs [OF assms(2), of o_s pl bg fds "[0..<length pl]" 0 "emit pevs w"] fl
      by (simp add: emit_def)
    have notchild: "e \<noteq> InChild out" for out
      using fork_loop_in_shell [OF assms(2), of o_s pl bg fds "[0..<length pl]" 0 "emit pevs w" out] fl
      by simp
    show ?thesis
    proof (cases e)
      case (Forked pg)
      define w2 where "w2 = snd (add_job pg cmd bg (emit (close_all fds) w1))"
      have t2: "tri (jobs w2)"
        using assms(1) j1 by (auto simp: w2_def add_job_def emit_def tri_def)
      have "jobs (snd (launch_pipeline o_s pl bg cmd w))
          = (if \<not> bg then jobs (post_wait (fst (foreground_wait o_s pg w2)) pg
                (next_job_id w1) cmd (snd (foreground_wait o_s pg w2)))
             else jobs w2)"
        using Pair Some fl Forked
        by (simp only: launch_pipeline_def prod.case option.case fork_end.case)
           (simp add: add_job_def w2_def emit_def foreground_wait_def split: prod.split)
      moreover have "tri (jobs (snd (foreground_wait o_s pg w2)))"
        using t2 by (simp add: foreground_wait_def emit_def split: prod.split)
      ultimately show ?thesis
        using t2 tri_post_wait by simp
    next
      case ForkFailed
      then show ?thesis
        using Pair Some fl assms(1) j1
        by (simp only: launch_pipeline_def prod.case option.case fork_end.case) simp
    next
      case (InChild out)
      then show ?thesis using notchild by simp
    qed
  qed
qed

lemma live_shell_step:
  assumes "live_table (jobs w)" and "0 \<notin> set (fork_rets o_s)"
    and "shell_step o_s input w = (Return (), w')"
  shows "live_table (jobs w')"
proof (cases input)
  case None
  then show ?thesis using assms(3) by (simp add: shell_step_def)
next
  case (Some l)
  obtain pl bg where parsed: "parse_pipeline (split_tokens (trim l)) = (pl, bg)"
    by (cases "parse_pipeline (split_tokens (trim l))")
  have t0: "tri (jobs (emit [Prompt] w))"
    using assms(1) by (simp add: emit_def live_tri)
  have l0: "live_table (jobs (emit [Prompt] w))"
    using assms(1) by (simp add: emit_def)
  have tb: "tri (jobs (snd (run_builtin o_s (argv (pl ! 0)) (emit [Prompt] w))))"
    using t0 by (rule tri_run_builtin)
  have tl: "tri (jobs (snd (launch_pipeline o_s pl bg (trim l) (emit [Prompt] w))))"
    using t0 assms(2) by (rule tri_launch)
  have "jobs w' = jobs (emit [Prompt] w)
      \<or> jobs w' = remove_completed_jobs (jobs (snd (run_builtin o_s (argv (pl ! 0)) (emit [Prompt] w))))
      \<or> jobs w' = remove_completed_jobs
            (jobs (snd (launch_pipeline o_s pl bg (trim l) (emit [Prompt] w))))"
    using assms(3) Some parsed
    by (auto simp: shell_step_def Let_def split: if_splits prod.splits outcome.splits)
  then show ?thesis
    using l0 tb tl tri_prune_live by auto
qed

lemma live_update:
  assumes "live_table js" and "status j = Running \<or> status j = Stopped"
  shows "live_table (js[k := j])"
  using assms set_update_subset_insert [of js k j] by (auto simp: live_table_iff)

lemma live_mark_stopped: "live_table js \<Longrightarrow> live_table (mark_job_as_stopped pg js)"
  by (auto simp: live_table_iff mark_job_as_stopped_def)



lemma live_reconcile:
  assumes "live_table js" and "WIFEXITED (wstat c) \<or> WIFSIGNALED (wstat c) \<longrightarrow> pgid_ret c \<le> 0"
  shows "live_table (reconcile c js)"
proof -
  have upd: "live_table (js[k := (js ! k)\<lparr>status := Running\<rparr>])" for k
    using assms(1) by (intro live_update) simp_all
  show ?thesis
    using assms upd by (auto simp: reconcile_def live_mark_stopped split: option.split)
qed

lemma live_reap_loop:
  "live_table (jobs w) \<Longrightarrow> reaped_gone pending \<Longrightarrow> live_table (jobs (reap_loop pending w))"
proof (induction pending arbitrary: w)
  case Nil
  then show ?case by (simp add: emit_def)
next
  case (Cons c cs)
  show ?case
  proof (cases "reaped c \<le> 0")
    case True
    then show ?thesis using Cons.prems(1) by (simp add: emit_def)
  next
    case False
    define w3 where "w3 = (emit [Getpgid (reaped c)]
        (emit [WaitPid (- 1) reap_flags] (w\<lparr>errno := errno_after c\<rparr>)))\<lparr>jobs := reconcile c (jobs w)\<rparr>"
    have step: "reap_loop (c # cs) w = reap_loop cs w3"
      using False by (simp add: w3_def Let_def emit_def)
    have gone: "WIFEXITED (wstat c) \<or> WIFSIGNALED (wstat c) \<longrightarrow> pgid_ret c \<le> 0"
      and rest: "reaped_gone cs"
      using Cons.prems(2) by (simp_all add: reaped_gone_def)
    have "live_table (jobs w3)"
      using live_reconcile [OF Cons.prems(1) gone] by (simp add: w3_def)
    then show ?thesis
      unfolding step using rest by (rule Cons.IH)
  qed
qed

lemma live_sigchld_handler:
  "live_table (jobs w) \<Longrightarrow> reaped_gone pending \<Longrightarrow> live_table (jobs (sigchld_handler pending w))"
  using live_reap_loop [of w pending] by (simp add: sigchld_handler_def)

lemma reachable_live: "reachable w \<Longrightarrow> live_table (jobs w)"
proof (induction rule: reachable.induct)
  case (start w)
  then show ?case by (simp add: live_table_def)
next
  case (turn w o_s input w')
  then show ?case using live_shell_step by blast
next
  case (signal w pending)
  then show ?case by (simp add: live_sigchld_handler)
qed

section \<open>Moves of a job's state (C1)\<close>



section \<open>Process-group ids in the job table (C3)\<close>

lemma live_pgids_mark_done:
  "map pgid (filter (\<lambda>j. status j \<noteq> Done) (mark_job_as_done pg js))
     = filter (\<lambda>p. p \<noteq> pg) (map pgid (filter (\<lambda>j. status j \<noteq> Done) js))"
  by (induction js) (simp_all add: mark_job_as_done_def)

lemma live_pgids_mark_stopped:
  "\<forall>j \<in> set js. pgid j = pg \<longrightarrow> status j \<noteq> Done \<Longrightarrow>
     map pgid (filter (\<lambda>j. status j \<noteq> Done) (mark_job_as_stopped pg js))
       = map pgid (filter (\<lambda>j. status j \<noteq> Done) js)"
  by (induction js) (simp_all add: mark_job_as_stopped_def)

lemma live_pgids_update:
  "k < length js \<Longrightarrow> status (js ! k) \<noteq> Done \<Longrightarrow> st \<noteq> Done \<Longrightarrow>
     map pgid (filter (\<lambda>j. status j \<noteq> Done) (js[k := (js ! k)\<lparr>is_background := b, status := st\<rparr>]))
       = map pgid (filter (\<lambda>j. status j \<noteq> Done) js)"
proof (induction js arbitrary: k)
  case Nil
  then show ?case by simp
next
  case (Cons j js)
  then show ?case by (cases k) simp_all
qed

lemma live_pgids_update_done_subset:
  "set (map pgid (filter (\<lambda>j. status j \<noteq> Done) (js[k := (js ! k)\<lparr>is_background := b, status := Done\<rparr>])))
     \<subseteq> set (map pgid (filter (\<lambda>j. status j \<noteq> Done) js))"
proof (induction js arbitrary: k)
  case Nil
  show ?case by simp
next
  case (Cons j js)
  show ?case
  proof (cases k)
    case 0
    then show ?thesis by auto
  next
    case (Suc k')
    then show ?thesis using Cons.IH [of k'] by auto
  qed
qed

lemma live_pgids_update_done:
  "distinct (map pgid (filter (\<lambda>j. status j \<noteq> Done) js)) \<Longrightarrow>
     distinct (map pgid (filter (\<lambda>j. status j \<noteq> Done)
        (js[k := (js ! k)\<lparr>is_background := b, status := Done\<rparr>])))"
proof (induction js arbitrary: k)
  case Nil
  show ?case by simp
next
  case (Cons j js)
  show ?case
  proof (cases k)
    case 0
    then show ?thesis using Cons.prems by (auto split: if_splits)
  next
    case (Suc k')
    then show ?thesis
      using Cons.IH [of k'] Cons.prems live_pgids_update_done_subset [of js k' b]
      by (auto split: if_splits)
  qed
qed

lemma one_live_prune:
  "one_job_per_live_pgid (remove_completed_jobs js) = one_job_per_live_pgid js"
  by (simp add: one_job_per_live_pgid_def remove_completed_jobs_def)

lemma one_live_fg:
  assumes "one_job_per_live_pgid (jobs w)" and "k < length (jobs w)"
    and "status (jobs w ! k) \<noteq> Done"
  shows "one_job_per_live_pgid (jobs (fg_job o_s k w))"
proof (cases "WIFSTOPPED (first_wait o_s)")
  case True
  then have "jobs (fg_job o_s k w) = remove_completed_jobs
      ((jobs w)[k := (jobs w ! k)\<lparr>is_background := False, status := Stopped\<rparr>])"
    by (simp add: fg_job_def Let_def emit_def)
  then show ?thesis
    using assms live_pgids_update [of k "jobs w" Stopped False]
    by (simp add: one_live_prune) (simp add: one_job_per_live_pgid_def)
next
  case False
  then have "jobs (fg_job o_s k w) = remove_completed_jobs
      ((jobs w)[k := (jobs w ! k)\<lparr>is_background := False, status := Done\<rparr>])"
    by (simp add: fg_job_def Let_def emit_def)
  then show ?thesis
    using assms(1) live_pgids_update_done [of "jobs w" k False]
    by (simp add: one_live_prune) (simp add: one_job_per_live_pgid_def)
qed

lemma one_live_bg:
  assumes "one_job_per_live_pgid (jobs w)" and "k < length (jobs w)"
    and "status (jobs w ! k) \<noteq> Done"
  shows "one_job_per_live_pgid (jobs (bg_job o_s k w))"
proof -
  have "jobs (bg_job o_s k w) = (jobs w)[k := (jobs w ! k)\<lparr>is_background := True, status := Running\<rparr>]"
    by (simp add: bg_job_def Let_def emit_def)
  then show ?thesis
    using assms live_pgids_update [of k "jobs w" Running True]
    by (simp add: one_job_per_live_pgid_def)
qed

lemma one_live_run_builtin:
  assumes inv: "one_job_per_live_pgid (jobs w)"
    and target: "\<forall>args n k. (av = ''fg'' # args \<or> av = ''bg'' # args) \<and> job_arg av = Inr n
        \<and> resolve_job n (jobs w) = Some k \<longrightarrow> status (jobs w ! k) \<noteq> Done"
  shows "one_job_per_live_pgid (jobs (snd (run_builtin o_s av w)))"
proof (cases av)
  case Nil
  then show ?thesis using inv by (simp add: run_builtin_def)
next
  case (Cons cmd args)
  consider (fg) "cmd = ''fg''" | (bg) "cmd = ''bg''" | (jobs) "cmd = ''jobs''"
    | (other) "cmd \<noteq> ''fg''" "cmd \<noteq> ''bg''" "cmd \<noteq> ''jobs''"
    by blast
  then show ?thesis
  proof cases
    case fg
    show ?thesis
    proof (cases "job_arg av")
      case (Inl e)
      then show ?thesis using inv Cons fg by (simp add: run_builtin_def)
    next
      case (Inr n)
      show ?thesis
      proof (cases "resolve_job n (jobs w)")
        case None
        then show ?thesis using inv Cons fg Inr by (simp add: run_builtin_def emit_def)
      next
        case (Some k)
        have "status (jobs w ! k) \<noteq> Done"
          using target Cons fg Inr Some by blast
        then have "one_job_per_live_pgid (jobs (fg_job o_s k w))"
          using inv resolve_job_bound [OF Some] by (intro one_live_fg)
        then show ?thesis using Cons fg Inr Some by (simp add: run_builtin_def)
      qed
    qed
  next
    case bg
    show ?thesis
    proof (cases "job_arg av")
      case (Inl e)
      then show ?thesis using inv Cons bg by (simp add: run_builtin_def)
    next
      case (Inr n)
      show ?thesis
      proof (cases "resolve_job n (jobs w)")
        case None
        then show ?thesis using inv Cons bg Inr by (simp add: run_builtin_def emit_def)
      next
        case (Some k)
        have "status (jobs w ! k) \<noteq> Done"
          using target Cons bg Inr Some by blast
        then have "one_job_per_live_pgid (jobs (bg_job o_s k w))"
          using inv resolve_job_bound [OF Some] by (intro one_live_bg)
        then show ?thesis using Cons bg Inr Some by (simp add: run_builtin_def)
      qed
    qed
  next
    case jobs
    then show ?thesis using inv Cons by (simp add: run_builtin_def emit_def one_live_prune)
  next
    case other
    then show ?thesis using inv Cons by (simp add: run_builtin_def emit_def)
  qed
qed

text \<open>
  C3 as stated fails for \<^verbatim>\<open>add_job\<close>, which looks at no job of the table: given the pgid
  of a Running job it adds a second Running job with that pgid. The shell gets there from
  an empty table: \<^verbatim>\<open>sleep 5 &\<close> starts group 200; its child exits and the handler reaps
  it, leaving the job Running since \<^verbatim>\<open>getpgid\<close> fails; the operating system gives pid
  200 again to the child of \<^verbatim>\<open>sleep 9 &\<close>.
\<close>

theorem add_job_duplicate_pgid_counterexample:
  "one_job_per_live_pgid (jobs (world0 [job0 1 200 Running]))
   \<and> \<not> one_job_per_live_pgid
        (jobs (snd (add_job 200 ''sleep 9'' True (world0 [job0 1 200 Running]))))
   \<and> reachable (snd (shell_step os_stop (Some ''sleep 9 &'')
        (sigchld_handler [change0 200 WExited (- 1) 3]
           (snd (shell_step os_stop (Some ''sleep 5 &'') (world0 []))))))
   \<and> map pgid (jobs (snd (shell_step os_stop (Some ''sleep 9 &'')
        (sigchld_handler [change0 200 WExited (- 1) 3]
           (snd (shell_step os_stop (Some ''sleep 5 &'') (world0 []))))))) = [200, 200]
   \<and> map status (jobs (snd (shell_step os_stop (Some ''sleep 9 &'')
        (sigchld_handler [change0 200 WExited (- 1) 3]
           (snd (shell_step os_stop (Some ''sleep 5 &'') (world0 []))))))) = [Running, Running]
   \<and> \<not> one_job_per_live_pgid (jobs (snd (shell_step os_stop (Some ''sleep 9 &'')
        (sigchld_handler [change0 200 WExited (- 1) 3]
           (snd (shell_step os_stop (Some ''sleep 5 &'') (world0 [])))))))"
proof -
  let ?w1 = "snd (shell_step os_stop (Some ''sleep 5 &'') (world0 []))"
  let ?w2 = "sigchld_handler [change0 200 WExited (- 1) 3] ?w1"
  let ?w3 = "snd (shell_step os_stop (Some ''sleep 9 &'') ?w2)"
  have before: "one_job_per_live_pgid (jobs (world0 [job0 1 200 Running]))"
    and after: "\<not> one_job_per_live_pgid
        (jobs (snd (add_job 200 ''sleep 9'' True (world0 [job0 1 200 Running]))))"
    by code_simp+
  have shell: "0 \<notin> set (fork_rets os_stop)"
    by code_simp
  have empty: "jobs (world0 []) = []"
    by (simp add: world0_def)
  have "fst (shell_step os_stop (Some ''sleep 5 &'') (world0 [])) = Return ()"
    by code_simp
  then have step1: "shell_step os_stop (Some ''sleep 5 &'') (world0 []) = (Return (), ?w1)"
    by (simp add: prod_eq_iff)
  have reach1: "reachable ?w1"
    using reachable.start [OF empty] shell step1 by (rule reachable.turn)
  have gone: "reaped_gone [change0 200 WExited (- 1) 3]"
    by code_simp
  have reach2: "reachable ?w2"
    using reach1 gone by (rule reachable.signal)
  have "fst (shell_step os_stop (Some ''sleep 9 &'') ?w2) = Return ()"
    by code_simp
  then have step3: "shell_step os_stop (Some ''sleep 9 &'') ?w2 = (Return (), ?w3)"
    by (simp add: prod_eq_iff)
  have reach3: "reachable ?w3"
    using reach2 shell step3 by (rule reachable.turn)
  have pgids: "map pgid (jobs ?w3) = [200, 200]"
    and states: "map status (jobs ?w3) = [Running, Running]"
    and broken: "\<not> one_job_per_live_pgid (jobs ?w3)"
    by code_simp+
  from before after reach3 pgids states broken show ?thesis
    by (intro conjI)
qed

text \<open>
  C3 as amended. A table with at most one job that is not Done for each pgid stays so
  under \<^verbatim>\<open>mark_job_as_done\<close>, \<^verbatim>\<open>remove_completed_jobs\<close> and the \<^verbatim>\<open>jobs\<close> built-in, whatever
  the table; under \<^verbatim>\<open>mark_job_as_stopped\<close> when no job of that pgid is Done in the table;
  under every call of a built-in, unless it is \<^verbatim>\<open>fg\<close> or \<^verbatim>\<open>bg\<close> with an argument that
  resolves to a job that is Done; and under \<^verbatim>\<open>add_job\<close> when no job of the table that is
  not Done has the pgid given, which \<^verbatim>\<open>add_job\<close> does not check. In every state the
  shell reaches from an empty table no job is Done, so that \<^verbatim>\<open>mark_job_as_stopped\<close> and
  every call of a built-in keep the property there with no proviso: \<^verbatim>\<open>add_job\<close> alone
  needs one.
\<close>

theorem live_pgid_preserved:
  assumes "one_job_per_live_pgid (jobs w)"
  shows "one_job_per_live_pgid (mark_job_as_done pg (jobs w))
     \<and> one_job_per_live_pgid (remove_completed_jobs (jobs w))
     \<and> one_job_per_live_pgid (jobs (snd (run_builtin o_s (''jobs'' # args) w)))
     \<and> ((\<forall>j \<in> set (jobs w). pgid j = pg \<longrightarrow> status j \<noteq> Done) \<longrightarrow>
          one_job_per_live_pgid (mark_job_as_stopped pg (jobs w)))
     \<and> ((\<forall>args n k. (av = ''fg'' # args \<or> av = ''bg'' # args) \<and> job_arg av = Inr n
             \<and> resolve_job n (jobs w) = Some k \<longrightarrow> status (jobs w ! k) \<noteq> Done) \<longrightarrow>
          one_job_per_live_pgid (jobs (snd (run_builtin o_s av w))))
     \<and> ((\<forall>j \<in> set (jobs w). pgid j = new_pg \<longrightarrow> status j = Done) \<longrightarrow>
          one_job_per_live_pgid (jobs (snd (add_job new_pg cmd bg w))))
     \<and> (reachable w \<longrightarrow>
          (\<forall>j \<in> set (jobs w). status j \<noteq> Done)
          \<and> one_job_per_live_pgid (mark_job_as_stopped pg (jobs w))
          \<and> one_job_per_live_pgid (jobs (snd (run_builtin o_s av w))))"
proof (intro conjI impI)
  show "one_job_per_live_pgid (mark_job_as_done pg (jobs w))"
    using assms by (simp add: one_job_per_live_pgid_def live_pgids_mark_done)
  show "one_job_per_live_pgid (remove_completed_jobs (jobs w))"
    using assms by (simp add: one_live_prune)
  show "one_job_per_live_pgid (jobs (snd (run_builtin o_s (''jobs'' # args) w)))"
    using assms by (intro one_live_run_builtin) simp_all
next
  assume "\<forall>j \<in> set (jobs w). pgid j = pg \<longrightarrow> status j \<noteq> Done"
  then show "one_job_per_live_pgid (mark_job_as_stopped pg (jobs w))"
    using assms by (simp add: one_job_per_live_pgid_def live_pgids_mark_stopped)
next
  assume "\<forall>args n k. (av = ''fg'' # args \<or> av = ''bg'' # args) \<and> job_arg av = Inr n
             \<and> resolve_job n (jobs w) = Some k \<longrightarrow> status (jobs w ! k) \<noteq> Done"
  with assms show "one_job_per_live_pgid (jobs (snd (run_builtin o_s av w)))"
    by (rule one_live_run_builtin)
next
  assume "\<forall>j \<in> set (jobs w). pgid j = new_pg \<longrightarrow> status j = Done"
  then have "new_pg \<notin> set (map pgid (filter (\<lambda>j. status j \<noteq> Done) (jobs w)))"
    by auto
  then show "one_job_per_live_pgid (jobs (snd (add_job new_pg cmd bg w)))"
    using assms by (simp add: one_job_per_live_pgid_def add_job_def)
next
  assume "reachable w"
  then have "live_table (jobs w)" by (rule reachable_live)
  then show no_done: "\<forall>j \<in> set (jobs w). status j \<noteq> Done"
    by (auto simp: live_table_iff)
  then show "one_job_per_live_pgid (mark_job_as_stopped pg (jobs w))"
    using assms by (simp add: one_job_per_live_pgid_def live_pgids_mark_stopped)
  have "\<forall>args n k. (av = ''fg'' # args \<or> av = ''bg'' # args) \<and> job_arg av = Inr n
             \<and> resolve_job n (jobs w) = Some k \<longrightarrow> status (jobs w ! k) \<noteq> Done"
    using no_done resolve_job_bound nth_mem by blast
  with assms show "one_job_per_live_pgid (jobs (snd (run_builtin o_s av w)))"
    by (rule one_live_run_builtin)
qed

theorem live_pgid_preserved_witness:
  "one_job_per_live_pgid (jobs (snd (shell_step os_stop (Some ''cat'') (world0 []))))
   \<and> map pgid (jobs (snd (shell_step os_stop (Some ''cat'') (world0 [])))) = [200]
   \<and> map status (jobs (snd (shell_step os_stop (Some ''cat'') (world0 [])))) = [Stopped]
   \<and> reachable (snd (shell_step os_stop (Some ''cat'') (world0 [])))
   \<and> one_job_per_live_pgid (mark_job_as_stopped 200
        (jobs (snd (shell_step os_stop (Some ''cat'') (world0 [])))))
   \<and> job_arg [''bg''] = Inr (- 1)
   \<and> resolve_job (- 1) (jobs (snd (shell_step os_stop (Some ''cat'') (world0 [])))) = Some 0
   \<and> one_job_per_live_pgid (jobs (snd (run_builtin os0 [''bg'']
        (snd (shell_step os_stop (Some ''cat'') (world0 []))))))
   \<and> one_job_per_live_pgid (jobs (snd (add_job 300 ''sleep 9'' True
        (snd (shell_step os_stop (Some ''cat'') (world0 []))))))
   \<and> map pgid (jobs (snd (add_job 300 ''sleep 9'' True
        (snd (shell_step os_stop (Some ''cat'') (world0 [])))))) = [200, 300]"
proof -
  let ?w = "snd (shell_step os_stop (Some ''cat'') (world0 []))"
  have returned: "fst (shell_step os_stop (Some ''cat'') (world0 [])) = Return ()"
    by code_simp
  have shell: "0 \<notin> set (fork_rets os_stop)"
    by code_simp
  have empty: "jobs (world0 []) = []"
    by (simp add: world0_def)
  have step: "shell_step os_stop (Some ''cat'') (world0 []) = (Return (), ?w)"
    using returned by (simp add: prod_eq_iff)
  have reach: "reachable ?w"
    using reachable.start [OF empty] shell step by (rule reachable.turn)
  have inv: "one_job_per_live_pgid (jobs ?w)"
    by code_simp
  have pgids: "map pgid (jobs ?w) = [200]" and states: "map status (jobs ?w) = [Stopped]"
    by code_simp+
  have arg: "job_arg [''bg''] = Inr (- 1)"
    by code_simp
  have res: "resolve_job (- 1) (jobs ?w) = Some 0"
    by code_simp
  have live0: "status (jobs ?w ! 0) \<noteq> Done"
    by code_simp
  have no_done: "\<forall>j \<in> set (jobs ?w). pgid j = 200 \<longrightarrow> status j \<noteq> Done"
    by code_simp
  have fresh: "\<forall>j \<in> set (jobs ?w). pgid j = 300 \<longrightarrow> status j = Done"
    by code_simp
  have target: "\<forall>args n k. ([''bg''] = ''fg'' # args \<or> [''bg''] = ''bg'' # args)
      \<and> job_arg [''bg''] = Inr n \<and> resolve_job n (jobs ?w) = Some k \<longrightarrow> status (jobs ?w ! k) \<noteq> Done"
    using arg res live0 by auto
  have added: "map pgid (jobs (snd (add_job 300 ''sleep 9'' True ?w))) = [200, 300]"
    by code_simp
  note holds = live_pgid_preserved [OF inv, where pg = 200 and av = "[''bg'']" and o_s = os0
      and new_pg = 300 and cmd = "''sleep 9''" and bg = True and args = "[]"]
  have stop: "one_job_per_live_pgid (mark_job_as_stopped 200 (jobs ?w))"
    using holds [THEN conjunct2, THEN conjunct2, THEN conjunct2, THEN conjunct1] no_done by (rule mp)
  have bg: "one_job_per_live_pgid (jobs (snd (run_builtin os0 [''bg''] ?w)))"
    using holds [THEN conjunct2, THEN conjunct2, THEN conjunct2, THEN conjunct2, THEN conjunct1]
      target by (rule mp)
  have add: "one_job_per_live_pgid (jobs (snd (add_job 300 ''sleep 9'' True ?w)))"
    using holds [THEN conjunct2, THEN conjunct2, THEN conjunct2, THEN conjunct2, THEN conjunct2,
        THEN conjunct1] fresh by (rule mp)
  from inv pgids states reach stop arg res bg add added show ?thesis
    by (intro conjI)
qed

section \<open>A job argument that does not resolve (C4)\<close>

lemma unresolved_job_reported:
  assumes "cmd = ''fg'' \<or> cmd = ''bg''"
    and "job_arg (cmd # args) = Inr n" and "resolve_job n (jobs w) = None"
  shows "run_builtin o_s (cmd # args) w
     = (Return (- 1), emit [Stderr [S (cmd @ '': no such job'' @ [CHR 0x0A])]] w)"
  using assms by (auto simp: run_builtin_def)

lemma unresolved_unless_sentinel:
  "n \<noteq> - 1 \<Longrightarrow> find_job_by_id n js = None \<Longrightarrow> resolve_job n js = None"
  "resolve_job (- 1) [] = None"
  by (simp_all add: resolve_job_def find_last_job_def)

text \<open>
  C4. The claim: \<^verbatim>\<open>fg\<close> or \<^verbatim>\<open>bg\<close> with an explicit id that no job of the table has
  reports "no such job", returns a failure and leaves the table unchanged. The source
  does so for every id but -1, its marker for "no argument": \<^verbatim>\<open>fg -1\<close> and \<^verbatim>\<open>bg -1\<close>,
  with a table whose only job has id 1, take that job, return 0, report nothing and
  change the job.
\<close>

theorem minus_one_takes_last_job:
  "job_arg [''fg'', ''-1''] = Inr (- 1)
   \<and> find_job_by_id (- 1) (jobs (world0 [job0 1 200 Stopped])) = None
   \<and> fst (run_builtin os_stop [''fg'', ''-1''] (world0 [job0 1 200 Stopped])) = Return 0
   \<and> jobs (snd (run_builtin os_stop [''fg'', ''-1''] (world0 [job0 1 200 Stopped])))
       = [(job0 1 200 Stopped)\<lparr>is_background := False\<rparr>]
   \<and> new_events (world0 [job0 1 200 Stopped])
        (snd (run_builtin os_stop [''fg'', ''-1''] (world0 [job0 1 200 Stopped])))
       = [Kill (- 200) SIGCONT, TcSetPgrp 200, WaitPid (- 200) {WUNTRACED}, TcSetPgrp 50]
   \<and> fst (run_builtin os0 [''bg'', ''-1''] (world0 [job0 1 200 Stopped])) = Return 0
   \<and> jobs (snd (run_builtin os0 [''bg'', ''-1''] (world0 [job0 1 200 Stopped])))
       = [job0 1 200 Running]"
  by code_simp

section \<open>Errors that end the shell (C5)\<close>

lemma run_builtin_abort:
  "fst (run_builtin o_s av w) = Abort \<longleftrightarrow>
     (\<exists>args e. (av = ''fg'' # args \<or> av = ''bg'' # args) \<and> job_arg av = Inl e)"
  by (auto simp: run_builtin_def split: list.splits sum.splits option.splits)

lemma launch_pipeline_in_shell:
  assumes "0 \<notin> set (fork_rets o_s)"
  shows "fst (launch_pipeline o_s pl bg cmd w) = Return ()"
proof -
  have "fork_loop o_s pl bg fds [0..<length pl] (fork_rets o_s) 0 w' \<noteq> (InChild out, w'')"
    for fds w' out w''
    using fork_loop_in_shell [OF assms, of o_s pl bg fds "[0..<length pl]" 0 w' out] by auto
  then show ?thesis
    by (auto simp: launch_pipeline_def split: prod.splits option.splits fork_end.splits)
qed

lemma run_builtin_ends:
  "(\<exists>r. fst (run_builtin o_s av w) = Return r)
   \<or> (fst (run_builtin o_s av w) = Exit 0 \<and> (\<exists>args. av = ''exit'' # args))
   \<or> (fst (run_builtin o_s av w) = Abort
       \<and> (\<exists>args e. (av = ''fg'' # args \<or> av = ''bg'' # args) \<and> job_arg av = Inl e))"
  by (auto simp: run_builtin_def split: list.splits sum.splits option.splits)

lemma shell_step_ends:
  assumes "0 \<notin> set (fork_rets o_s)" and "fst (shell_step o_s (Some l) w) \<noteq> Return ()"
  shows "\<exists>c. fst (parse_pipeline (split_tokens (trim l))) = [c]
     \<and> ((fst (shell_step o_s (Some l) w) = Exit 0 \<and> (\<exists>args. argv c = ''exit'' # args))
         \<or> (fst (shell_step o_s (Some l) w) = Abort
             \<and> (\<exists>args e. (argv c = ''fg'' # args \<or> argv c = ''bg'' # args)
                    \<and> job_arg (argv c) = Inl e)))"
proof -
  obtain pl bg where parsed: "parse_pipeline (split_tokens (trim l)) = (pl, bg)"
    by (cases "parse_pipeline (split_tokens (trim l))")
  have launched: "fst (launch_pipeline o_s pl bg (trim l) w') = Return ()" for w'
    using assms(1) by (rule launch_pipeline_in_shell)
  have launched_step:
    "fst (case launch_pipeline o_s pl bg (trim l) w' of
            (Return u, w1) \<Rightarrow> (Return (), w1\<lparr>jobs := remove_completed_jobs (jobs w1)\<rparr>)
          | (Exit st, w1) \<Rightarrow> (Exit st, w1)
          | (Abort, w1) \<Rightarrow> (Abort, w1)
          | (Exec a, w1) \<Rightarrow> (Exec a, w1)) = Return ()" for w'
    using launched [of w'] by (cases "launch_pipeline o_s pl bg (trim l) w'") auto
  have single: "length pl = 1 \<and> is_builtin (argv (pl ! 0))"
    and ran: "fst (shell_step o_s (Some l) w)
        = (case fst (run_builtin o_s (argv (pl ! 0)) (emit [Prompt] w)) of
             Return r \<Rightarrow> Return () | Exit st \<Rightarrow> Exit st | Abort \<Rightarrow> Abort | Exec a \<Rightarrow> Exec a)"
    using assms(2) launched_step
    by (auto simp: shell_step_def Let_def parsed split: if_splits prod.splits outcome.splits)
  from single obtain c where c: "pl = [c]"
    by (cases pl) auto
  from run_builtin_ends [of o_s "argv c" "emit [Prompt] w"] assms(2) ran c parsed
  show ?thesis by auto
qed

text \<open>
  C5. The claim: no error, a non-numeric job id of \<^verbatim>\<open>fg\<close> or \<^verbatim>\<open>bg\<close> among them, ends the
  shell. In the source \<^verbatim>\<open>std::stoi\<close> throws on such an argument and nothing catches the
  exception: the turns of the prompt loop on \<^verbatim>\<open>fg abc\<close>, on \<^verbatim>\<open>bg %\<close> and on an id too
  large for an \<^verbatim>\<open>int\<close> end the shell by abort, while a numeric id of no job is reported
  and the loop goes on.
\<close>

theorem non_numeric_job_id_aborts_shell:
  "job_arg [''fg'', ''abc''] = Inl Invalid_argument
   \<and> fst (shell_step os0 (Some ''fg abc'') (world0 [])) = Abort
   \<and> fst (shell_step os0 (Some ''bg %'') (world0 [job0 1 200 Stopped])) = Abort
   \<and> job_arg [''fg'', ''99999999999''] = Inl Out_of_range
   \<and> fst (shell_step os0 (Some ''fg 99999999999'') (world0 [])) = Abort
   \<and> fst (shell_step os0 (Some ''fg 7'') (world0 [])) = Return ()"
  by code_simp

end
